theory Spec2Isabelle
  imports Complex_Main "HOL-Library.Log_Nat"
begin

section \<open>Python values and exceptions\<close>

text \<open>
  The exceptions that the modelled functions raise or catch. \<open>ClientResponseError\<close> and
  \<open>ClientError\<close> are the two aiohttp classes that \<open>getTonLastTransactions\<close> names in its
  handlers; \<open>OtherException\<close> stands for every other subclass of \<open>Exception\<close> a request
  can raise (a timeout, a JSON decoding error).
\<close>

datatype error =
    ValueError string
  | KeyError string
  | TypeError
  | AttributeError
  | ZeroDivisionError
  | OverflowError
  | ClientResponseError
  | ClientError
  | OtherException

section \<open>scanAPI.convert\_amount\<close>

subsection \<open>Strings\<close>

definition lower_char :: "char \<Rightarrow> char" where
  "lower_char c =
     (case map_of (zip ''ABCDEFGHIJKLMNOPQRSTUVWXYZ'' ''abcdefghijklmnopqrstuvwxyz'') c of
        None \<Rightarrow> c
      | Some l \<Rightarrow> l)"

text \<open>\<open>str.lower()\<close> on the ASCII letters; every other byte is kept.\<close>

definition lower :: "string \<Rightarrow> string" where
  "lower s = map lower_char s"

text \<open>\<open>s.rstrip(c)\<close> for a single character \<open>c\<close>.\<close>

definition rstrip :: "string \<Rightarrow> char \<Rightarrow> string" where
  "rstrip s c = rev (dropWhile (\<lambda>x. x = c) (rev s))"

definition digit_char :: "nat \<Rightarrow> char" where
  "digit_char n = ''0123456789'' ! n"

text \<open>The decimal numeral of a natural number, as \<open>str\<close> and the integer part of a format print it.\<close>

fun str_nat :: "nat \<Rightarrow> string" where
  "str_nat n = (if n < 10 then [digit_char n] else str_nat (n div 10) @ [digit_char (n mod 10)])"

declare str_nat.simps [simp del]

text \<open>Left padding with zeros to a width of \<open>d\<close> characters.\<close>

definition zfill :: "nat \<Rightarrow> string \<Rightarrow> string" where
  "zfill d s = replicate (d - length s) CHR ''0'' @ s"

subsection \<open>Binary64 floating point\<close>

text \<open>
  A finite Python float is modelled by a pair \<open>(m, e)\<close> of integers that denotes
  \<open>m * 2^e\<close>; the significand \<open>m\<close> carries the sign. Rounding is to the nearest
  value, ties to the even one, both when a quotient becomes a float and when a float is
  printed with a fixed number of digits.
\<close>

type_synonym pyfloat = "int \<times> int"

text \<open>The integer nearest to \<open>num / den\<close> for a positive \<open>den\<close>, ties to even.\<close>

definition round_half_even :: "int \<Rightarrow> int \<Rightarrow> int" where
  "round_half_even num den =
     (let q = num div den; r = num mod den
      in if 2 * r < den then q
         else if den < 2 * r then q + 1
         else if even q then q else q + 1)"

text \<open>\<open>\<lfloor>log\<^sub>2 (a / b)\<rfloor>\<close> for positive integers, computed from the bit lengths.\<close>

definition floor_log2_quot :: "int \<Rightarrow> int \<Rightarrow> int" where
  "floor_log2_quot a b =
     (let d = bitlen a - bitlen b
      in if (if 0 \<le> d then b * 2 ^ nat d \<le> a else b \<le> a * 2 ^ nat (- d)) then d else d - 1)"

text \<open>
  The binary64 value nearest to \<open>a / b\<close> for positive \<open>a\<close> and \<open>b\<close>: 53 significant bits,
  the exponent not below that of the subnormal numbers.
\<close>

definition binary64_nearest :: "int \<Rightarrow> int \<Rightarrow> pyfloat" where
  "binary64_nearest a b =
     (let e = max (floor_log2_quot a b) (- 1022) - 52
      in (if 0 \<le> e then round_half_even a (b * 2 ^ nat e)
          else round_half_even (a * 2 ^ nat (- e)) b, e))"

text \<open>
  \<open>a / b\<close> on two Python integers: the correctly rounded quotient, \<open>ZeroDivisionError\<close> for
  a zero divisor and \<open>OverflowError\<close> when the rounded quotient reaches \<open>2^1024\<close>.
\<close>

definition true_divide :: "int \<Rightarrow> int \<Rightarrow> error + pyfloat" where
  "true_divide a b =
     (if b = 0 then Inl ZeroDivisionError
      else if a = 0 then Inr (0, 0)
      else let (m, e) = binary64_nearest \<bar>a\<bar> \<bar>b\<bar>
           in if 1024 < bitlen m + e then Inl OverflowError
              else Inr (if (a < 0) = (b < 0) then m else - m, e))"

text \<open>
  The format \<open>f"{x:.{d}f}"\<close>: the decimal with \<open>d\<close> fractional digits nearest to the
  exact value of the float \<open>x\<close>, ties to even.
\<close>

definition format_fixed :: "pyfloat \<Rightarrow> nat \<Rightarrow> string" where
  "format_fixed x d =
     (let (m, e) = x;
          n = nat (if 0 \<le> e then \<bar>m\<bar> * 2 ^ nat e * 10 ^ d
                   else round_half_even (\<bar>m\<bar> * 10 ^ d) (2 ^ nat (- e)))
      in (if m < 0 then ''-'' else '''')
         @ str_nat (n div 10 ^ d)
         @ (if d = 0 then '''' else ''.'' @ zfill d (str_nat (n mod 10 ^ d))))"

subsection \<open>The conversion\<close>

definition decimals_map :: "string \<rightharpoonup> nat" where
  "decimals_map = map_of
     [(''btc'', 8), (''eth'', 18), (''bnb'', 18), (''sol'', 9),
      (''ltc'', 8), (''matic'', 18), (''ton'', 9), (''doge'', 8)]"

definition convert_amount :: "int \<Rightarrow> string \<Rightarrow> error + string" where
  "convert_amount amount blockchain =
     (case decimals_map (lower blockchain) of
        None \<Rightarrow> Inl (ValueError (''Unrecognized blockchain type: '' @ blockchain))
      | Some decimals \<Rightarrow>
          if amount = 0 then Inr ''0''
          else
            let factor = 10 ^ decimals
            in (case true_divide amount factor of
                  Inl e \<Rightarrow> Inl e
                | Inr user_friendly_amount \<Rightarrow>
                    Inr (rstrip (rstrip (format_fixed user_friendly_amount decimals) CHR ''0'')
                           CHR ''.'')))"

text \<open>
  The conversion as the specification words it: the exact quotient \<open>rawAmount / 10^decimals\<close>
  written with exactly \<open>decimals\<close> fractional digits, then trailing zero digits and a
  trailing decimal point stripped.
\<close>

definition exact_decimal :: "nat \<Rightarrow> nat \<Rightarrow> string" where
  "exact_decimal rawAmount decimals =
     rstrip (rstrip (str_nat (rawAmount div 10 ^ decimals) @ ''.''
                      @ zfill decimals (str_nat (rawAmount mod 10 ^ decimals))) CHR ''0'')
       CHR ''.''"

definition spec_normalize :: "int \<Rightarrow> nat \<Rightarrow> string" where
  "spec_normalize rawAmount decimals =
     (if rawAmount = 0 then ''0'' else exact_decimal (nat rawAmount) decimals)"

section \<open>scanAPI.getTonLastTransactions\<close>

subsection \<open>Decoded JSON\<close>

text \<open>
  The value that \<open>response.json()\<close> returns: \<open>None\<close>, a bool, an int, a finite float, a
  str, a list or a dict. A dict is the list of its items, each key once.
\<close>

datatype json =
    JNull
  | JBool bool
  | JInt int
  | JFloat pyfloat
  | JStr string
  | JArr "json list"
  | JObj "(string \<times> json) list"

text \<open>Running a computation that may raise, then the next one on its value.\<close>

definition and_then :: "error + 'a \<Rightarrow> ('a \<Rightarrow> error + 'b) \<Rightarrow> error + 'b" where
  "and_then r f = (case r of Inl e \<Rightarrow> Inl e | Inr v \<Rightarrow> f v)"

text \<open>\<open>d[k]\<close> for a string key: only a dict can be subscripted by a string.\<close>

fun subscript :: "json \<Rightarrow> string \<Rightarrow> error + json" where
  "subscript (JObj kvs) k = (case map_of kvs k of None \<Rightarrow> Inl (KeyError k) | Some v \<Rightarrow> Inr v)"
| "subscript _ k = Inl TypeError"

text \<open>\<open>d.get(k, default)\<close>: only a dict has the method.\<close>

fun get_or :: "json \<Rightarrow> string \<Rightarrow> json \<Rightarrow> error + json" where
  "get_or (JObj kvs) k d = Inr (case map_of kvs k of None \<Rightarrow> d | Some v \<Rightarrow> v)"
| "get_or _ k d = Inl AttributeError"

text \<open>The truth value of an object in a condition.\<close>

fun truthy :: "json \<Rightarrow> bool" where
  "truthy JNull = False"
| "truthy (JBool b) = b"
| "truthy (JInt n) = (n \<noteq> 0)"
| "truthy (JFloat x) = (fst x \<noteq> 0)"
| "truthy (JStr s) = (s \<noteq> [])"
| "truthy (JArr xs) = (xs \<noteq> [])"
| "truthy (JObj kvs) = (kvs \<noteq> [])"

text \<open>The items a \<open>for\<close> loop draws from an object; a dict gives its keys.\<close>

fun iterate :: "json \<Rightarrow> error + json list" where
  "iterate (JArr xs) = Inr xs"
| "iterate (JObj kvs) = Inr (map (\<lambda>kv. JStr (fst kv)) kvs)"
| "iterate (JStr s) = Inr (map (\<lambda>c. JStr [c]) s)"
| "iterate _ = Inl TypeError"

subsection \<open>The constructor int\<close>

text \<open>
  The white space that \<open>int\<close> skips around a literal in an ASCII str: the space and the
  characters \<open>\t\<close>, \<open>\n\<close>, \<open>\v\<close>, \<open>\f\<close> and \<open>\r\<close>.
\<close>

definition is_space :: "char \<Rightarrow> bool" where
  "is_space c = (c \<in> set [CHR '' '', CHR 0x09, CHR 0x0A, CHR 0x0B, CHR 0x0C, CHR 0x0D])"

definition strip :: "string \<Rightarrow> string" where
  "strip s = rev (dropWhile is_space (rev (dropWhile is_space s)))"

definition digit_value :: "char \<rightharpoonup> nat" where
  "digit_value = map_of (zip ''0123456789'' [0, 1, 2, 3, 4, 5, 6, 7, 8, 9])"

text \<open>Groups of digits with single underscores between them.\<close>

fun digit_groups :: "string \<Rightarrow> bool" where
  "digit_groups [] = False"
| "digit_groups [c] = (digit_value c \<noteq> None)"
| "digit_groups (c # d # r) =
     (digit_value c \<noteq> None \<and> (if d = CHR ''_'' then digit_groups r else digit_groups (d # r)))"

fun digits_to_nat :: "string \<Rightarrow> nat \<Rightarrow> nat" where
  "digits_to_nat [] acc = acc"
| "digits_to_nat (c # r) acc =
     digits_to_nat r (case digit_value c of None \<Rightarrow> acc | Some v \<Rightarrow> 10 * acc + v)"

text \<open>
  \<open>int(s)\<close> on a str of ASCII characters: white space around an optional sign and a decimal
  literal.
\<close>

definition int_of_str :: "string \<Rightarrow> error + int" where
  "int_of_str s =
     (let t = strip s;
          negative = (t \<noteq> [] \<and> hd t = CHR ''-'');
          body = (if t \<noteq> [] \<and> (hd t = CHR ''-'' \<or> hd t = CHR ''+'') then tl t else t)
      in if digit_groups body
         then Inr ((if negative then - 1 else 1) * int (digits_to_nat body 0))
         else Inl (ValueError (''invalid literal for int() with base 10: '' @ s)))"

text \<open>\<open>int(v)\<close>: a float is truncated towards zero, \<open>None\<close>, a list and a dict are refused.\<close>

fun py_int :: "json \<Rightarrow> error + int" where
  "py_int (JInt n) = Inr n"
| "py_int (JBool b) = Inr (if b then 1 else 0)"
| "py_int (JFloat x) =
     Inr (let (m, e) = x
          in if 0 \<le> e then m * 2 ^ nat e else sgn m * (\<bar>m\<bar> div 2 ^ nat (- e)))"
| "py_int (JStr s) = int_of_str s"
| "py_int _ = Inl TypeError"

subsection \<open>One page of transactions\<close>

record transaction =
  trx_address :: json
  trx_hash :: json
  trx_time :: json
  trx_success :: json
  trx_amount :: string
  trx_memo :: json

datatype log_entry = Warning error | Error error

text \<open>
  The first loop: \<open>addresses[usrf] = data['address_book'][usrf].get('user_friendly', "Unknown")\<close>
  for every key of the address book.
\<close>

fun address_entries :: "(string \<times> json) list \<Rightarrow> (string \<rightharpoonup> json) \<Rightarrow> error + (string \<rightharpoonup> json)" where
  "address_entries [] addresses = Inr addresses"
| "address_entries ((usrf, entry) # rest) addresses =
     and_then (get_or entry ''user_friendly'' (JStr ''Unknown''))
       (\<lambda>name. address_entries rest (addresses(usrf \<mapsto> name)))"

text \<open>
  An address book that is not a dict raises on its first item (its items are no keys of
  it), whatever the class of the exception; one without items leaves \<open>addresses\<close> empty.
\<close>

definition address_book :: "json \<Rightarrow> error + (string \<rightharpoonup> json)" where
  "address_book book =
     (case book of
        JObj kvs \<Rightarrow> address_entries kvs Map.empty
      | _ \<Rightarrow> and_then (iterate book) (\<lambda>items. if items = [] then Inr Map.empty else Inl TypeError))"

text \<open>\<open>addresses.get(key, default)\<close>: a list or a dict cannot be hashed.\<close>

fun addresses_get :: "(string \<rightharpoonup> json) \<Rightarrow> json \<Rightarrow> json \<Rightarrow> error + json" where
  "addresses_get addresses (JStr k) d = Inr (case addresses k of None \<Rightarrow> d | Some v \<Rightarrow> v)"
| "addresses_get addresses (JArr xs) d = Inl TypeError"
| "addresses_get addresses (JObj kvs) d = Inl TypeError"
| "addresses_get addresses _ d = Inr d"

text \<open>The memo of a transaction, computed before the inner \<open>try\<close> (lines 241 to 244).\<close>

definition message_content :: "json \<Rightarrow> error + json" where
  "message_content trx = and_then (subscript trx ''in_msg'') (\<lambda>in_msg. subscript in_msg ''message_content'')"

definition comment_of :: "json \<Rightarrow> error + json" where
  "comment_of trx =
     and_then (message_content trx) (\<lambda>content.
     and_then (get_or content ''decoded'' JNull) (\<lambda>decoded.
       if truthy decoded then
         and_then (message_content trx) (\<lambda>content.
         and_then (subscript content ''decoded'') (\<lambda>decoded.
         and_then (get_or decoded ''comment'' JNull) (\<lambda>comment.
           if truthy comment then
             and_then (message_content trx) (\<lambda>content.
             and_then (subscript content ''decoded'') (\<lambda>decoded. subscript decoded ''comment''))
           else Inr JNull)))
       else Inr JNull))"

text \<open>The dict appended inside the inner \<open>try\<close> (lines 247 to 256), its values in order.\<close>

definition info_entry :: "(string \<rightharpoonup> json) \<Rightarrow> json \<Rightarrow> json \<Rightarrow> error + transaction" where
  "info_entry addresses trx memo =
     and_then (subscript trx ''in_msg'') (\<lambda>in_msg.
     and_then (get_or in_msg ''source'' JNull) (\<lambda>source.
     and_then (addresses_get addresses source (JStr ''Unknown address'')) (\<lambda>address.
     and_then (subscript trx ''hash'') (\<lambda>hash.
     and_then (subscript trx ''now'') (\<lambda>now.
     and_then (subscript trx ''description'') (\<lambda>description.
     and_then (subscript description ''compute_ph'') (\<lambda>compute_ph.
     and_then (get_or compute_ph ''success'' (JBool False)) (\<lambda>success.
     and_then (subscript trx ''in_msg'') (\<lambda>in_msg.
     and_then (get_or in_msg ''value'' JNull) (\<lambda>v.
     and_then (py_int v) (\<lambda>n.
     and_then (convert_amount n ''ton'') (\<lambda>amount.
       Inr \<lparr>trx_address = address, trx_hash = hash, trx_time = now,
            trx_success = success, trx_amount = amount, trx_memo = memo\<rparr>))))))))))))"

text \<open>
  The loop over the transactions. Only a \<open>KeyError\<close> raised inside the inner \<open>try\<close> is
  caught there (a warning is logged and the record is skipped); any other exception, and any
  exception of the memo lines, leaves the loop.
\<close>

fun parse_transactions ::
  "(string \<rightharpoonup> json) \<Rightarrow> json list \<Rightarrow> transaction list \<Rightarrow> log_entry list
    \<Rightarrow> (error + transaction list) \<times> log_entry list" where
  "parse_transactions addresses [] info lg = (Inr info, lg)"
| "parse_transactions addresses (trx # rest) info lg =
     (case comment_of trx of
        Inl e \<Rightarrow> (Inl e, lg)
      | Inr memo \<Rightarrow>
          (case info_entry addresses trx memo of
             Inr t \<Rightarrow> parse_transactions addresses rest (info @ [t]) lg
           | Inl (KeyError k) \<Rightarrow>
               parse_transactions addresses rest info (lg @ [Warning (KeyError k)])
           | Inl e \<Rightarrow> (Inl e, lg)))"

text \<open>The body of the outer \<open>try\<close> once the response is decoded (lines 234 to 260).\<close>

definition page_of :: "json \<Rightarrow> (error + transaction list) \<times> log_entry list" where
  "page_of data =
     (case and_then (get_or data ''address_book'' (JObj [])) address_book of
        Inl e \<Rightarrow> (Inl e, [])
      | Inr addresses \<Rightarrow>
          (case and_then (get_or data ''transactions'' (JArr [])) iterate of
             Inl e \<Rightarrow> (Inl e, [])
           | Inr trxs \<Rightarrow> parse_transactions addresses trxs [] []))"

text \<open>
  \<open>getTonLastTransactions\<close> on the outcome of its request: \<open>Inl e\<close> when the request, the
  status check or the decoding raised \<open>e\<close>, \<open>Inr data\<close> for the decoded body. Each of the
  three handlers logs an error, and the function then returns the empty list.
\<close>

definition getTonLastTransactions :: "error + json \<Rightarrow> transaction list \<times> log_entry list" where
  "getTonLastTransactions response =
     (case response of
        Inl e \<Rightarrow> ([], [Error e])
      | Inr data \<Rightarrow>
          (case page_of data of
             (Inr info, lg) \<Rightarrow> (info, lg)
           | (Inl e, lg) \<Rightarrow> ([], lg @ [Error e])))"

section \<open>CryptoPaymentsAPI\<close>

subsection \<open>The stop events\<close>

text \<open>
  \<open>self.stop_events\<close> is a \<open>defaultdict(asyncio.Event)\<close>: a subject without an entry gets
  an unset event the first time it is looked up. \<open>Some True\<close> is a set event.
\<close>

type_synonym 'u stop_events = "'u \<rightharpoonup> bool"

definition event_for :: "'u stop_events \<Rightarrow> 'u \<Rightarrow> 'u stop_events" where
  "event_for events u = (case events u of None \<Rightarrow> events(u \<mapsto> False) | Some b \<Rightarrow> events)"

definition is_set :: "'u stop_events \<Rightarrow> 'u \<Rightarrow> bool" where
  "is_set events u = (events u = Some True)"

text \<open>\<open>self.stop_events[user_id].set()\<close>\<close>

definition stop_monitoring :: "'u \<Rightarrow> 'u stop_events \<Rightarrow> 'u stop_events" where
  "stop_monitoring u events = (event_for events u)(u \<mapsto> True)"

text \<open>\<open>self.stop_events[user_id].clear()\<close>, the first statement of \<open>monitorTransactions\<close>.\<close>

definition clear_event :: "'u \<Rightarrow> 'u stop_events \<Rightarrow> 'u stop_events" where
  "clear_event u events = (event_for events u)(u \<mapsto> False)"

subsection \<open>The match\<close>

text \<open>\<open>trx['amount'] == amount and (memo is None or trx['memo'] == memo)\<close>\<close>

definition matches :: "transaction \<Rightarrow> string \<Rightarrow> string option \<Rightarrow> bool" where
  "matches trx amount memo =
     (trx_amount trx = amount \<and> (case memo of None \<Rightarrow> True | Some m \<Rightarrow> trx_memo trx = JStr m))"

text \<open>The loop \<open>for trx in transactions\<close>, left with \<open>True\<close> at the first match.\<close>

fun first_match :: "transaction list \<Rightarrow> string \<Rightarrow> string option \<Rightarrow> bool" where
  "first_match [] amount memo = False"
| "first_match (trx # rest) amount memo =
     (if matches trx amount memo then True else first_match rest amount memo)"

subsection \<open>The session and its surroundings\<close>

text \<open>
  The coroutine gives up control in two places of a cycle, the request and the sleep. What
  the other tasks do to the stop events meanwhile is a list of actions: a call of
  \<open>stop_monitoring\<close>, or the start of another \<open>monitorTransactions\<close> for a subject, which
  clears that subject's event.
\<close>

datatype 'u action = Stop 'u | Restart 'u

fun perform :: "'u action \<Rightarrow> 'u stop_events \<Rightarrow> 'u stop_events" where
  "perform (Stop u) events = stop_monitoring u events"
| "perform (Restart u) events = clear_event u events"

text \<open>The subject whose stop event an action touches.\<close>

fun subject :: "'u action \<Rightarrow> 'u" where
  "subject (Stop u) = u"
| "subject (Restart u) = u"

text \<open>
  The surroundings of one session: the outcome of its \<open>k\<close>-th request and the actions of the
  other tasks during its \<open>k\<close>-th request and its \<open>k\<close>-th sleep, counted from 0.
\<close>

record 'u world =
  responses :: "nat \<Rightarrow> error + json"
  during_fetch :: "nat \<Rightarrow> 'u action list"
  during_sleep :: "nat \<Rightarrow> 'u action list"

datatype event = Fetch string | Sleep int | Log log_entry | Print string

text \<open>
  The state of a running session: the stop events, the loop variable \<open>i\<close> (\<open>elapsed\<close>),
  the number of requests issued so far, and what the session did, oldest first.
\<close>

record 'u session =
  stop_events :: "'u stop_events"
  elapsed :: int
  polls :: nat
  trace :: "event list"

text \<open>The arguments of \<open>monitorTransactions\<close>.\<close>

record 'u request =
  user_id :: 'u
  blockchain :: string
  address :: string
  amount :: string
  timeInterval :: int
  memo :: "string option"
  checkTime :: int

datatype 'u cycle = Return "error + bool" "'u session" | Continue "'u session"

text \<open>The body of the \<open>while\<close> loop (lines 324 to 334).\<close>

definition poll_cycle :: "'u world \<Rightarrow> 'u request \<Rightarrow> 'u session \<Rightarrow> 'u cycle" where
  "poll_cycle w rq s =
     (let k = polls s;
          s0 = s\<lparr>stop_events := event_for (stop_events s) (user_id rq)\<rparr>
      in if is_set (stop_events s0) (user_id rq) then Return (Inr False) s0
         else if blockchain rq = ''ton'' then
           (let (transactions, lg) = getTonLastTransactions (responses w k);
                s1 = s0\<lparr>stop_events := fold perform (during_fetch w k) (stop_events s0),
                        polls := Suc k,
                        trace := trace s0 @ Fetch (address rq) # map Log lg\<rparr>
            in if first_match transactions (amount rq) (memo rq) then Return (Inr True) s1
               else Continue
                      (s1\<lparr>stop_events := fold perform (during_sleep w k) (stop_events s1),
                          trace := trace s1 @ [Sleep (checkTime rq)],
                          elapsed := elapsed s1 + checkTime rq\<rparr>))
         else Return (Inl (ValueError (''Unsupported blockchain type: '' @ blockchain rq))) s0)"

text \<open>
  The loop \<open>while i <= timeInterval\<close>, and the \<open>return False\<close> after it. The loop need not
  end: \<open>None\<close> is a call that never returns.
\<close>

partial_function (option) monitor_loop ::
  "'u world \<Rightarrow> 'u request \<Rightarrow> 'u session \<Rightarrow> ((error + bool) \<times> 'u session) option" where
  [code]: "monitor_loop w rq s =
     (if elapsed s \<le> timeInterval rq then
        (case poll_cycle w rq s of
           Return r s' \<Rightarrow> Some (r, s')
         | Continue s' \<Rightarrow> monitor_loop w rq s')
      else Some (Inr False, s))"

text \<open>The handlers around the loop print the exception and raise it again.\<close>

definition reraise :: "error \<Rightarrow> 'u session \<Rightarrow> 'u session" where
  "reraise e s =
     s\<lparr>trace := trace s @
          [Print (case e of ValueError msg \<Rightarrow> ''ValueError: '' @ msg
                  | _ \<Rightarrow> ''An error occurred during monitoring'')]\<rparr>"

definition monitorTransactions ::
  "'u world \<Rightarrow> 'u request \<Rightarrow> 'u stop_events \<Rightarrow> ((error + bool) \<times> 'u session) option" where
  "monitorTransactions w rq events =
     (case monitor_loop w rq
             \<lparr>stop_events = clear_event (user_id rq) events, elapsed = 0, polls = 0, trace = []\<rparr> of
        None \<Rightarrow> None
      | Some (Inl e, s) \<Rightarrow> Some (Inl e, reraise e s)
      | Some (Inr b, s) \<Rightarrow> Some (Inr b, s))"

text \<open>
  The same loop with a counter of the executions of its body, the poll cycles: the body is
  \<open>poll_cycle\<close> again, and the result without the counter is that of \<open>monitor_loop\<close>.
\<close>

partial_function (option) counted_loop ::
  "'u world \<Rightarrow> 'u request \<Rightarrow> 'u session \<Rightarrow> nat
     \<Rightarrow> (((error + bool) \<times> 'u session) \<times> nat) option" where
  [code]: "counted_loop w rq s n =
     (if elapsed s \<le> timeInterval rq then
        (case poll_cycle w rq s of
           Return r s' \<Rightarrow> Some ((r, s'), Suc n)
         | Continue s' \<Rightarrow> counted_loop w rq s' (Suc n))
      else Some ((Inr False, s), n))"

text \<open>
  The number of poll cycles that a call of \<open>monitorTransactions\<close> executes; \<open>None\<close> when the
  call does not return.
\<close>

definition poll_cycles :: "'u world \<Rightarrow> 'u request \<Rightarrow> 'u stop_events \<Rightarrow> nat option" where
  "poll_cycles w rq events =
     map_option snd
       (counted_loop w rq
          \<lparr>stop_events = clear_event (user_id rq) events, elapsed = 0, polls = 0, trace = []\<rparr> 0)"

text \<open>The page of the \<open>k\<close>-th request holds a transaction that matches the request.\<close>

definition found :: "'u world \<Rightarrow> 'u request \<Rightarrow> nat \<Rightarrow> bool" where
  "found w rq k =
     first_match (fst (getTonLastTransactions (responses w k))) (amount rq) (memo rq)"

text \<open>No other task ever calls \<open>stop_monitoring\<close> for the subject \<open>u\<close>.\<close>

definition never_stopped :: "'u world \<Rightarrow> 'u \<Rightarrow> bool" where
  "never_stopped w u =
     (\<forall>k. Stop u \<notin> set (during_fetch w k) \<and> Stop u \<notin> set (during_sleep w k))"

text \<open>
  Two worlds are the same for the subject \<open>u\<close> when they answer the requests alike and
  the other tasks do the same to the stop event of \<open>u\<close>, in the same order.
\<close>

definition same_for :: "'u \<Rightarrow> 'u world \<Rightarrow> 'u world \<Rightarrow> bool" where
  "same_for u w w' =
     (responses w' = responses w
      \<and> (\<forall>k. filter (\<lambda>a. subject a = u) (during_fetch w' k)
                 = filter (\<lambda>a. subject a = u) (during_fetch w k))
      \<and> (\<forall>k. filter (\<lambda>a. subject a = u) (during_sleep w' k)
                 = filter (\<lambda>a. subject a = u) (during_sleep w k)))"

text \<open>What a session of the subject \<open>u\<close> can tell of a state: all but the others' events.\<close>

definition view :: "'u \<Rightarrow> 'u session \<Rightarrow> bool option \<times> int \<times> nat \<times> event list" where
  "view u s = (stop_events s u, elapsed s, polls s, trace s)"

definition outcome ::
  "'u \<Rightarrow> ((error + bool) \<times> 'u session) option
     \<Rightarrow> ((error + bool) \<times> bool option \<times> int \<times> nat \<times> event list) option" where
  "outcome u r = map_option (\<lambda>(res, s). (res, view u s)) r"

text \<open>The number of requests a session issued, and the number of its sleeps.\<close>

definition fetches :: "event list \<Rightarrow> nat" where
  "fetches tr = length (filter (\<lambda>ev. case ev of Fetch a \<Rightarrow> True | _ \<Rightarrow> False) tr)"

definition sleeps :: "event list \<Rightarrow> nat" where
  "sleeps tr = length (filter (\<lambda>ev. case ev of Sleep t \<Rightarrow> True | _ \<Rightarrow> False) tr)"

section \<open>Sample inputs\<close>

text \<open>
  A transaction record as the toncenter API sends it, cut down to the fields that
  \<open>getTonLastTransactions\<close> reads: \<open>v\<close> nanotons with the comment \<open>c\<close>.
\<close>

definition record_ok :: "string \<Rightarrow> string \<Rightarrow> json" where
  "record_ok v c =
     JObj [(''hash'', JStr ''h1''), (''now'', JInt 1700000000),
           (''description'', JObj [(''compute_ph'', JObj [(''success'', JBool False)])]),
           (''in_msg'', JObj [(''source'', JStr ''0:abc''), (''value'', JStr v),
              (''message_content'', JObj [(''decoded'', JObj [(''comment'', JStr c)])])])]"

text \<open>The same record without its \<open>hash\<close>, and one without its \<open>in_msg\<close>.\<close>

definition record_without_hash :: json where
  "record_without_hash =
     JObj [(''now'', JInt 1700000000),
           (''description'', JObj [(''compute_ph'', JObj [(''success'', JBool False)])]),
           (''in_msg'', JObj [(''source'', JStr ''0:abc''), (''value'', JStr ''5''),
              (''message_content'', JObj [])])]"

definition record_without_in_msg :: json where
  "record_without_in_msg =
     JObj [(''hash'', JStr ''h2''), (''now'', JInt 1700000000),
           (''description'', JObj [(''compute_ph'', JObj [(''success'', JBool False)])])]"

definition sample_page :: "json list \<Rightarrow> json" where
  "sample_page trxs =
     JObj [(''transactions'', JArr trxs),
           (''address_book'', JObj [(''0:abc'', JObj [(''user_friendly'', JStr ''EQabc'')])])]"

text \<open>What \<open>record_ok ''10000000000'' ''x''\<close> is parsed to: 10 TON with the memo \<open>x\<close>.\<close>

definition payment_10 :: transaction where
  "payment_10 =
     \<lparr>trx_address = JStr ''EQabc'', trx_hash = JStr ''h1'', trx_time = JInt 1700000000,
      trx_success = JBool False, trx_amount = ''10'', trx_memo = JStr ''x''\<rparr>"

text \<open>
  The scenario of the specification: nobody interferes, the first two polls find an empty
  page and the third one the payment; a budget of 10 seconds, polled every 5 seconds.
\<close>

definition quiet_world :: "string world" where
  "quiet_world =
     \<lparr>responses = (\<lambda>k. if k = 2 then Inr (sample_page [record_ok ''10000000000'' ''x''])
                          else Inr (sample_page [])),
      during_fetch = (\<lambda>k. []),
      during_sleep = (\<lambda>k. [])\<rparr>"

text \<open>Nobody interferes and every page is empty.\<close>

definition empty_world :: "string world" where
  "empty_world =
     \<lparr>responses = (\<lambda>k. Inr (sample_page [])),
      during_fetch = (\<lambda>k. []),
      during_sleep = (\<lambda>k. [])\<rparr>"

text \<open>As \<open>empty_world\<close>, but \<open>stop_monitoring(''alice'')\<close> is called during the first sleep.\<close>

definition cancelling_world :: "string world" where
  "cancelling_world = empty_world\<lparr>during_sleep := (\<lambda>k. if k = 0 then [Stop ''alice''] else [])\<rparr>"

text \<open>
  As \<open>quiet_world\<close>, but the first request fails and the body of the second one is
  \<open>null\<close>.
\<close>

definition failing_world :: "string world" where
  "failing_world =
     quiet_world\<lparr>responses := (\<lambda>k. if k = 0 then Inl ClientError
                                    else if k = 1 then Inr JNull
                                    else Inr (sample_page [record_ok ''10000000000'' ''x'']))\<rparr>"

text \<open>As \<open>quiet_world\<close>, but the session of \<open>bob\<close> is stopped, started and stopped again.\<close>

definition busy_world :: "string world" where
  "busy_world =
     quiet_world\<lparr>during_fetch := (\<lambda>k. if k = 1 then [Restart ''bob'', Stop ''bob''] else []),
                  during_sleep := (\<lambda>k. if k = 0 then [Stop ''bob''] else [])\<rparr>"

text \<open>
  Every page holds the payment, and \<open>stop_monitoring(''alice'')\<close> is called while the first
  request is under way.
\<close>

definition late_stop_world :: "string world" where
  "late_stop_world =
     \<lparr>responses = (\<lambda>k. Inr (sample_page [record_ok ''10000000000'' ''x''])),
      during_fetch = (\<lambda>k. if k = 0 then [Stop ''alice''] else []),
      during_sleep = (\<lambda>k. [])\<rparr>"

text \<open>
  As \<open>quiet_world\<close>, but during the first sleep \<open>stop_monitoring(''alice'')\<close> is called and
  then another session for \<open>alice\<close> is started.
\<close>

definition restart_world :: "string world" where
  "restart_world =
     quiet_world\<lparr>during_sleep := (\<lambda>k. if k = 0 then [Stop ''alice'', Restart ''alice''] else [])\<rparr>"

definition sample_request :: "string request" where
  "sample_request =
     \<lparr>user_id = ''alice'', blockchain = ''ton'', address = ''EQwallet'', amount = ''10'',
      timeInterval = 10, memo = None, checkTime = 5\<rparr>"

section \<open>Evaluation\<close>

lemma bitlen_numeral [simp]: "bitlen (numeral k) = bitlen (numeral k div 2) + 1"
  by (subst compute_bitlen) simp

lemma bitlen_one [simp]: "bitlen 1 = 1"
  by (subst compute_bitlen) simp

lemma replicate_numeral_Cons [simp]: "replicate (numeral k) x = x # replicate (pred_numeral k) x"
  by (simp add: numeral_eq_Suc)

lemmas convert_defs =
  convert_amount_def decimals_map_def lower_def lower_char_def true_divide_def
  binary64_nearest_def floor_log2_quot_def round_half_even_def format_fixed_def rstrip_def
  zfill_def str_nat.simps digit_char_def exact_decimal_def spec_normalize_def

lemmas page_defs =
  getTonLastTransactions_def page_of_def and_then_def address_book_def comment_of_def
  message_content_def info_entry_def int_of_str_def strip_def is_space_def digit_value_def

lemma convert_10_ton: "convert_amount 10000000000 ''ton'' = Inr ''10''"
  by (simp add: convert_defs Let_def split del: if_split)

lemma convert_5_nanoton: "convert_amount 5 ''ton'' = Inr ''0.000000005''"
  by (simp add: convert_defs Let_def split del: if_split)

lemma int_10_ton: "py_int (JStr ''10000000000'') = Inr 10000000000"
  by (simp add: page_defs Let_def split del: if_split)

lemma int_5: "py_int (JStr ''5'') = Inr 5"
  by (simp add: page_defs Let_def split del: if_split)

lemma page_empty: "getTonLastTransactions (Inr (sample_page [])) = ([], [])"
  by (simp add: page_defs sample_page_def)

lemma page_payment:
  "getTonLastTransactions (Inr (sample_page [record_ok ''10000000000'' ''x''])) = ([payment_10], [])"
  by (simp add: page_defs sample_page_def record_ok_def payment_10_def int_10_ton convert_10_ton)

lemma page_without_hash:
  "getTonLastTransactions (Inr (sample_page [record_without_hash, record_ok ''10000000000'' ''x'']))
     = ([payment_10], [Warning (KeyError ''hash'')])"
  by (simp add: page_defs sample_page_def record_ok_def record_without_hash_def payment_10_def
      int_10_ton convert_10_ton int_5 convert_5_nanoton)

section \<open>The conversion of amounts\<close>

text \<open>Rounding to the nearest integer: the result is unique and at most one half away.\<close>

lemma round_half_even_nearest:
  assumes "0 < den" and "2 * \<bar>num - n * den\<bar> < den"
  shows "round_half_even num den = n"
proof (cases "n * den \<le> num")
  case True
  define r where "r = num - n * den"
  have r: "num = den * n + r" "0 \<le> r" "r < den" "2 * r < den"
    using True assms by (simp_all add: r_def algebra_simps)
  have "num div den = n" "num mod den = r"
    using int_div_pos_eq [OF r(1-3)] int_mod_pos_eq [OF r(1-3)] by simp_all
  with r(4) show ?thesis by (simp add: round_half_even_def)
next
  case False
  define r where "r = num - (n - 1) * den"
  have r: "num = den * (n - 1) + r" "0 \<le> r" "r < den" "den < 2 * r"
    using False assms by (simp_all add: r_def algebra_simps)
  have "num div den = n - 1" "num mod den = r"
    using int_div_pos_eq [OF r(1-3)] int_mod_pos_eq [OF r(1-3)] by simp_all
  with r(4) show ?thesis by (simp add: round_half_even_def)
qed

lemma round_half_even_error:
  assumes "0 < den"
  shows "2 * \<bar>round_half_even num den * den - num\<bar> \<le> den"
proof -
  define q where "q = num div den"
  define r where "r = num mod den"
  have num: "num = q * den + r" and r: "0 \<le> r" "r < den"
    using assms by (simp_all add: q_def r_def)
  have "round_half_even num den = q \<and> 2 * r \<le> den
      \<or> round_half_even num den = q + 1 \<and> den \<le> 2 * r"
    by (auto simp: round_half_even_def Let_def q_def r_def)
  then show ?thesis
  proof
    assume "round_half_even num den = q \<and> 2 * r \<le> den"
    then show ?thesis using num r by simp
  next
    assume a: "round_half_even num den = q + 1 \<and> den \<le> 2 * r"
    then have "round_half_even num den * den - num = den - r"
      using num by (simp add: algebra_simps)
    with a r show ?thesis by simp
  qed
qed

lemma round_half_even_nonneg:
  assumes "0 < den" and "0 \<le> num"
  shows "0 \<le> round_half_even num den"
proof -
  have "0 \<le> num div den" using assms by (simp add: pos_imp_zdiv_nonneg_iff)
  then show ?thesis by (auto simp: round_half_even_def Let_def)
qed

text \<open>\<open>floor_log2_quot a b\<close> is not above the binary logarithm of \<open>a / b\<close>.\<close>

lemma floor_log2_quot_lower:
  assumes "0 < a" and "0 < b"
  shows "if 0 \<le> floor_log2_quot a b then b * 2 ^ nat (floor_log2_quot a b) \<le> a
         else b \<le> a * 2 ^ nat (- floor_log2_quot a b)"
proof -
  define la where "la = nat (bitlen a - 1)"
  define lb where "lb = nat (bitlen b - 1)"
  have pa: "1 \<le> bitlen a" and pb: "1 \<le> bitlen b"
    using assms bitlen_eq_zero_iff [of a] bitlen_eq_zero_iff [of b] bitlen_nonneg [of a] bitlen_nonneg [of b]
    by linarith+
  have la: "bitlen a = int la + 1" and lb: "bitlen b = int lb + 1"
    using pa pb by (simp_all add: la_def lb_def)
  have a: "2 ^ la \<le> a" using bitlen_bounds [OF assms(1)] by (simp add: la_def)
  have b: "b < 2 ^ Suc lb" using bitlen_bounds [OF assms(2)] lb by (simp add: nat_add_distrib)
  define d where "d = bitlen a - bitlen b"
  have d: "d = int la - int lb" by (simp add: d_def la lb)
  show ?thesis
  proof (cases "if 0 \<le> d then b * 2 ^ nat d \<le> a else b \<le> a * 2 ^ nat (- d)")
    case True
    then have "floor_log2_quot a b = d"
      by (auto simp: floor_log2_quot_def d_def Let_def split: if_splits)
    with True show ?thesis by simp
  next
    case False
    then have f: "floor_log2_quot a b = d - 1"
      by (auto simp: floor_log2_quot_def d_def Let_def split: if_splits)
    show ?thesis
    proof (cases "1 \<le> d")
      case True
      then have "nat (d - 1) + Suc lb = la" using d by simp
      then have "(2::int) ^ Suc lb * 2 ^ nat (d - 1) = 2 ^ la"
        by (simp add: power_add [symmetric] add.commute del: power_Suc)
      moreover have "b * 2 ^ nat (d - 1) \<le> 2 ^ Suc lb * 2 ^ nat (d - 1)"
        using b by (simp del: power_Suc)
      ultimately have "b * 2 ^ nat (d - 1) \<le> a" using a by linarith
      with True f show ?thesis by simp
    next
      case False
      then have "la + nat (1 - d) = Suc lb" using d by simp
      then have "(2::int) ^ la * 2 ^ nat (1 - d) = 2 ^ Suc lb"
        by (simp add: power_add [symmetric] del: power_Suc)
      moreover have "2 ^ la * 2 ^ nat (1 - d) \<le> a * 2 ^ nat (1 - d)"
        using a by simp
      ultimately have "b \<le> a * 2 ^ nat (1 - d)" using b by linarith
      with False f show ?thesis by simp
    qed
  qed
qed

lemma floor_log2_quot_upper: "floor_log2_quot a b \<le> bitlen a - bitlen b"
  by (simp add: floor_log2_quot_def Let_def)

text \<open>
  Below \<open>2^52\<close> the float nearest to \<open>a / b\<close> still determines \<open>a\<close>: rounding its
  product with \<open>b\<close> gives \<open>a\<close> back.
\<close>

lemma binary64_nearest_small:
  assumes a: "0 < a" "a < 2 ^ 52" and b: "0 < b" "b < 2 ^ 1074"
  shows "\<exists>m k. binary64_nearest a b = (m, - int k) \<and> 0 < k \<and> 0 \<le> m \<and> m < 2 ^ (52 + k)
            \<and> round_half_even (m * b) (2 ^ k) = a"
proof -
  define f where "f = floor_log2_quot a b"
  define g where "g = max f (- 1022)"
  define k where "k = nat (52 - g)"
  define m where "m = round_half_even (a * 2 ^ k) b"
  have "bitlen a \<le> 52" using a(2) by (simp add: bitlen_le_iff_power)
  moreover have "1 \<le> bitlen b"
    using b(1) bitlen_eq_zero_iff [of b] bitlen_nonneg [of b] by linarith
  ultimately have f51: "f \<le> 51" using floor_log2_quot_upper [of a b] by (simp add: f_def)
  then have g: "g \<le> 51" "- 1022 \<le> g" by (simp_all add: g_def)
  then have k: "0 < k" "int k = 52 - g" by (simp_all add: k_def)
  have near: "binary64_nearest a b = (m, - int k)"
    using g k by (simp add: binary64_nearest_def Let_def f_def [symmetric] g_def [symmetric]
        m_def k_def)
  have err: "2 * \<bar>m * b - a * 2 ^ k\<bar> \<le> b"
    unfolding m_def by (rule round_half_even_error [OF b(1)])
  have m0: "0 \<le> m"
    unfolding m_def using a(1) by (intro round_half_even_nonneg [OF b(1)]) simp
  have small: "b < 2 ^ k"
  proof (cases "f < - 1022")
    case True
    then have "k = 1074" by (simp add: k_def g_def)
    with b(2) show ?thesis by simp
  next
    case False
    then have gf: "g = f" by (simp add: g_def)
    show ?thesis
    proof (cases "0 \<le> f")
      case True
      with floor_log2_quot_lower [OF a(1) b(1)] have "b * 2 ^ nat f \<le> a" by (simp add: f_def)
      with a(2) have "b * 2 ^ nat f < 2 ^ 52" by linarith
      moreover have "k + nat f = 52"
        using True f51 gf by (simp add: k_def)
      then have "(2::int) ^ 52 = 2 ^ k * 2 ^ nat f"
        by (simp only: power_add [symmetric])
      ultimately have "b * 2 ^ nat f < 2 ^ k * 2 ^ nat f" by (simp only:)
      then show ?thesis by simp
    next
      case False
      with floor_log2_quot_lower [OF a(1) b(1)] have "b \<le> a * 2 ^ nat (- f)" by (simp add: f_def)
      moreover have "a * 2 ^ nat (- f) < 2 ^ 52 * 2 ^ nat (- f)" using a(2) by simp
      moreover have "52 + nat (- f) = k"
        using False gf by (simp add: k_def)
      then have "(2::int) ^ 52 * 2 ^ nat (- f) = 2 ^ k"
        by (simp only: power_add [symmetric])
      ultimately show ?thesis by linarith
    qed
  qed
  have again: "round_half_even (m * b) (2 ^ k) = a"
  proof (rule round_half_even_nearest)
    show "(0::int) < 2 ^ k" by simp
    show "2 * \<bar>m * b - a * 2 ^ k\<bar> < 2 ^ k" using err small by linarith
  qed
  have "m \<le> a * 2 ^ k"
  proof (rule ccontr)
    assume "\<not> m \<le> a * 2 ^ k"
    then have "a * 2 ^ k + 1 \<le> m" by simp
    then have "(a * 2 ^ k + 1) * b \<le> m * b" using b(1) by (simp add: mult_right_mono)
    moreover have "a * 2 ^ k * 1 \<le> a * 2 ^ k * b"
      using a(1) b(1) by (intro mult_left_mono) simp_all
    ultimately have "a * 2 ^ k + b \<le> m * b" by (simp add: algebra_simps)
    then have "b \<le> \<bar>m * b - a * 2 ^ k\<bar>" by (simp add: abs_if)
    with err b(1) show False by simp
  qed
  moreover have "a * 2 ^ k < 2 ^ 52 * 2 ^ k" using a(2) by simp
  ultimately have "m < 2 ^ 52 * 2 ^ k" by (rule le_less_trans)
  then have "m < 2 ^ (52 + k)" by (simp only: power_add)
  with near k(1) m0 again show ?thesis by blast
qed

lemma decimals_range: "decimals_map c = Some d \<Longrightarrow> 0 < d \<and> d \<le> 18"
  by (auto simp: decimals_map_def split: if_splits)

text \<open>
  For amounts below \<open>2^52\<close> smallest units the conversion is exact on every blockchain of
  the table.
\<close>

lemma convert_amount_exact_below_2_52:
  assumes "decimals_map (lower chain) = Some d" and "0 \<le> a" and "a < 2 ^ 52"
  shows "convert_amount a chain = Inr (spec_normalize a d)"
proof (cases "a = 0")
  case True
  with assms(1) show ?thesis by (simp add: convert_amount_def spec_normalize_def)
next
  case False
  with assms(2) have a: "0 < a" by simp
  from decimals_range [OF assms(1)] have d: "0 < d" "d \<le> 18" by simp_all
  have "(10::int) ^ d \<le> 10 ^ 18" using d(2) by (intro power_increasing) simp_all
  also have "\<dots> < 2 ^ 1074" by simp
  finally have b: "(0::int) < 10 ^ d" "(10::int) ^ d < 2 ^ 1074" by simp_all
  from binary64_nearest_small [OF a assms(3) b] obtain m k where mk:
    "binary64_nearest a (10 ^ d) = (m, - int k)" "0 < k" "0 \<le> m" "m < 2 ^ (52 + k)"
    "round_half_even (m * 10 ^ d) (2 ^ k) = a" by blast
  have "bitlen m \<le> int (52 + k)"
    using mk(4) bitlen_le_iff_power [of m "int (52 + k)"] by (simp del: of_nat_add)
  then have fits: "\<not> 1024 < bitlen m + - int k" by simp
  have div: "true_divide a (10 ^ d) = Inr (m, - int k)"
    using a mk(1) fits by (simp add: true_divide_def)
  have "format_fixed (m, - int k) d =
          str_nat (nat a div 10 ^ d) @ ''.'' @ zfill d (str_nat (nat a mod 10 ^ d))"
    using mk(2,3,5) d(1) by (simp add: format_fixed_def Let_def)
  with div assms(1) False a show ?thesis
    by (simp add: convert_amount_def spec_normalize_def exact_decimal_def)
qed

text \<open>
  C3, at 1.234567890123456789 ETH: the quotient is rounded to a binary64 float before it is
  printed, so \<open>convert_amount\<close> returns the 18 digits of that float, which are not the
  digits of the amount that the exact conversion of the specification gives.
\<close>

theorem convert_amount_inexact:
  "convert_amount 1234567890123456789 ''eth'' = Inr ''1.23456789012345669''
   \<and> spec_normalize 1234567890123456789 18 = ''1.234567890123456789''
   \<and> decimals_map (lower ''eth'') = Some 18"
  by (simp add: convert_defs Let_def split del: if_split)

section \<open>Parsing a page\<close>

text \<open>
  C4, on a page of two records: when the first one has no \<open>in_msg\<close>, the \<open>KeyError\<close> is
  raised by the memo lines, outside the inner \<open>try\<close>, and the outer handler returns the
  empty list: the well-formed second record is lost with it. A record that lacks its
  \<open>hash\<close> is skipped alone, as the inner handler intends.
\<close>

theorem malformed_record_drops_page:
  "getTonLastTransactions
      (Inr (sample_page [record_without_in_msg, record_ok ''10000000000'' ''x'']))
     = ([], [Error (KeyError ''in_msg'')])
   \<and> getTonLastTransactions (Inr (sample_page [record_ok ''10000000000'' ''x'']))
     = ([payment_10], [])"
  by (simp add: page_defs sample_page_def record_ok_def record_without_in_msg_def payment_10_def
      int_10_ton convert_10_ton)

section \<open>The stop events\<close>

lemma clear_event_eq: "clear_event u events = events(u \<mapsto> False)"
  by (auto simp: clear_event_def event_for_def split: option.splits)

lemma stop_monitoring_eq: "stop_monitoring u events = events(u \<mapsto> True)"
  by (auto simp: stop_monitoring_def event_for_def split: option.splits)

lemma event_for_set: "is_set events u \<Longrightarrow> event_for events u = events"
  by (simp add: is_set_def event_for_def)

lemma is_set_event_for [simp]: "is_set (event_for events u) v = is_set events v"
  by (auto simp: is_set_def event_for_def split: option.splits)

lemma perform_subject: "perform a events (subject a) = Some (a = Stop (subject a))"
  by (cases a) (simp_all add: clear_event_eq stop_monitoring_eq)

lemma perform_other: "subject a \<noteq> u \<Longrightarrow> perform a events u = events u"
  by (cases a) (simp_all add: clear_event_eq stop_monitoring_eq)

lemma fold_perform_at:
  "fold perform acts events u =
     (let mine = filter (\<lambda>a. subject a = u) acts
      in if mine = [] then events u else Some (last mine = Stop u))"
proof (induction acts arbitrary: events rule: rev_induct)
  case Nil
  then show ?case by simp
next
  case (snoc a acts)
  show ?case
  proof (cases "subject a = u")
    case True
    then show ?thesis using perform_subject [of a "fold perform acts events"] by (auto simp: Let_def)
  next
    case False
    then show ?thesis using snoc by (simp add: perform_other Let_def)
  qed
qed

lemma fold_perform_no_stop:
  assumes "Stop u \<notin> set acts" and "\<not> is_set events u"
  shows "\<not> is_set (fold perform acts events) u"
proof -
  let ?mine = "filter (\<lambda>a. subject a = u) acts"
  have "?mine \<noteq> [] \<Longrightarrow> last ?mine \<noteq> Stop u"
    using assms(1) last_in_set [of ?mine] by auto
  with assms(2) show ?thesis
    by (auto simp: is_set_def fold_perform_at Let_def)
qed

section \<open>One poll cycle\<close>

lemma fetches_append [simp]: "fetches (xs @ ys) = fetches xs + fetches ys"
  by (simp add: fetches_def)

lemma sleeps_append [simp]: "sleeps (xs @ ys) = sleeps xs + sleeps ys"
  by (simp add: sleeps_def)

lemma fetches_simps [simp]:
  "fetches [] = 0" "fetches (Fetch a # tr) = Suc (fetches tr)" "fetches (Sleep t # tr) = fetches tr"
  "fetches (Log l # tr) = fetches tr" "fetches (Print m # tr) = fetches tr"
  by (simp_all add: fetches_def)

lemma sleeps_simps [simp]:
  "sleeps [] = 0" "sleeps (Fetch a # tr) = sleeps tr" "sleeps (Sleep t # tr) = Suc (sleeps tr)"
  "sleeps (Log l # tr) = sleeps tr" "sleeps (Print m # tr) = sleeps tr"
  by (simp_all add: sleeps_def)

lemma fetches_logs [simp]: "fetches (map Log lg) = 0"
  by (induction lg) simp_all

lemma sleeps_logs [simp]: "sleeps (map Log lg) = 0"
  by (induction lg) simp_all

lemma poll_cycle_stopped:
  "is_set (stop_events s) (user_id rq) \<Longrightarrow> poll_cycle w rq s = Return (Inr False) s"
  by (simp add: poll_cycle_def Let_def event_for_set)

lemma poll_cycle_unsupported:
  assumes "\<not> is_set (stop_events s) (user_id rq)" and "blockchain rq \<noteq> ''ton''"
  shows "poll_cycle w rq s =
           Return (Inl (ValueError (''Unsupported blockchain type: '' @ blockchain rq)))
             (s\<lparr>stop_events := event_for (stop_events s) (user_id rq)\<rparr>)"
  using assms by (simp add: poll_cycle_def Let_def)

lemma poll_cycle_found:
  assumes "\<not> is_set (stop_events s) (user_id rq)" and "blockchain rq = ''ton''"
    and "found w rq (polls s)"
  shows "\<exists>s'. poll_cycle w rq s = Return (Inr True) s'
            \<and> fetches (trace s') = Suc (fetches (trace s))
            \<and> sleeps (trace s') = sleeps (trace s)"
  using assms by (simp add: poll_cycle_def Let_def found_def case_prod_beta)

lemma poll_cycle_continue:
  assumes "\<not> is_set (stop_events s) (user_id rq)" and "blockchain rq = ''ton''"
    and "\<not> found w rq (polls s)"
  shows "\<exists>s'. poll_cycle w rq s = Continue s'
            \<and> elapsed s' = elapsed s + checkTime rq
            \<and> polls s' = Suc (polls s)
            \<and> fetches (trace s') = Suc (fetches (trace s))
            \<and> sleeps (trace s') = Suc (sleeps (trace s))
            \<and> stop_events s' =
                fold perform (during_sleep w (polls s))
                  (fold perform (during_fetch w (polls s))
                     (event_for (stop_events s) (user_id rq)))"
  using assms by (simp add: poll_cycle_def Let_def found_def case_prod_beta)

lemma monitor_loop_expired:
  "\<not> elapsed s \<le> timeInterval rq \<Longrightarrow> monitor_loop w rq s = Some (Inr False, s)"
  by (subst monitor_loop.simps) simp

lemma monitor_loop_stopped:
  assumes "elapsed s \<le> timeInterval rq" and "is_set (stop_events s) (user_id rq)"
  shows "monitor_loop w rq s = Some (Inr False, s)"
  using assms by (subst monitor_loop.simps) (simp add: poll_cycle_stopped)

lemma monitor_loop_continue:
  assumes "elapsed s \<le> timeInterval rq" and "poll_cycle w rq s = Continue s'"
  shows "monitor_loop w rq s = monitor_loop w rq s'"
  using assms by (subst monitor_loop.simps) simp

lemma monitor_loop_return:
  assumes "elapsed s \<le> timeInterval rq" and "poll_cycle w rq s = Return r s'"
  shows "monitor_loop w rq s = Some (r, s')"
  using assms by (subst monitor_loop.simps) simp

section \<open>The loop\<close>

lemma stays_unset:
  assumes "never_stopped w (user_id rq)" and "\<not> is_set (stop_events s) (user_id rq)"
  shows "\<not> is_set (fold perform (during_sleep w k)
                  (fold perform (during_fetch w k) (event_for (stop_events s) (user_id rq))))
               (user_id rq)"
  using assms by (simp add: never_stopped_def fold_perform_no_stop)

lemma loop_outcome:
  assumes ton: "blockchain rq = ''ton''" and pos: "0 < checkTime rq"
    and quiet: "never_stopped w (user_id rq)"
  shows "\<not> is_set (stop_events s) (user_id rq) \<Longrightarrow>
     \<exists>s'. monitor_loop w rq s =
        Some (Inr (\<exists>j. elapsed s + int j * checkTime rq \<le> timeInterval rq \<and> found w rq (polls s + j)), s')"
proof (induction "nat (timeInterval rq - elapsed s + 1)" arbitrary: s rule: less_induct)
  case less
  let ?ans = "\<lambda>s. \<exists>j. elapsed s + int j * checkTime rq \<le> timeInterval rq \<and> found w rq (polls s + j)"
  show ?case
  proof (cases "elapsed s \<le> timeInterval rq")
    case False
    have "timeInterval rq < elapsed s + int j * checkTime rq" for j
    proof -
      have "0 \<le> int j * checkTime rq" using pos by simp
      with False show ?thesis by linarith
    qed
    then have "\<not> ?ans s" by (simp add: not_le)
    then show ?thesis using False by (simp add: monitor_loop_expired)
  next
    case True
    show ?thesis
    proof (cases "found w rq (polls s)")
      case True
      then have "?ans s" using \<open>elapsed s \<le> timeInterval rq\<close> by (intro exI [of _ 0]) simp
      moreover obtain s' where "poll_cycle w rq s = Return (Inr True) s'"
        using poll_cycle_found [OF less.prems ton True] by blast
      ultimately show ?thesis
        using \<open>elapsed s \<le> timeInterval rq\<close> by (simp add: monitor_loop_return)
    next
      case False
      obtain s' where s': "poll_cycle w rq s = Continue s'"
        "elapsed s' = elapsed s + checkTime rq" "polls s' = Suc (polls s)"
        "stop_events s' = fold perform (during_sleep w (polls s))
                  (fold perform (during_fetch w (polls s)) (event_for (stop_events s) (user_id rq)))"
        using poll_cycle_continue [OF less.prems ton False] by blast
      have unset: "\<not> is_set (stop_events s') (user_id rq)"
        using stays_unset [OF quiet less.prems] s'(4) by simp
      have "nat (timeInterval rq - elapsed s' + 1) < nat (timeInterval rq - elapsed s + 1)"
        using s'(2) pos True by simp
      from less.hyps [OF this unset]
      obtain t where t: "monitor_loop w rq s' = Some (Inr (?ans s'), t)" by blast
      have "?ans s' = ?ans s"
      proof
        assume "?ans s'"
        then obtain j where "elapsed s' + int j * checkTime rq \<le> timeInterval rq" "found w rq (polls s' + j)"
          by blast
        then have "elapsed s + int (Suc j) * checkTime rq \<le> timeInterval rq \<and> found w rq (polls s + Suc j)"
          using s'(2,3) by (simp add: algebra_simps)
        then show "?ans s" by blast
      next
        assume "?ans s"
        then obtain j where j: "elapsed s + int j * checkTime rq \<le> timeInterval rq" "found w rq (polls s + j)"
          by blast
        with False have "j \<noteq> 0" by (cases j) auto
        then obtain i where "j = Suc i" by (cases j) auto
        with j have "elapsed s' + int i * checkTime rq \<le> timeInterval rq \<and> found w rq (polls s' + i)"
          using s'(2,3) by (simp add: algebra_simps)
        then show "?ans s'" by blast
      qed
      with t s'(1) True show ?thesis by (simp add: monitor_loop_continue)
    qed
  qed
qed

lemmas monitor_loop_induct = monitor_loop.raw_induct [rotated 1, consumes 1, case_names step]

lemma loop_never_returns:
  "monitor_loop w rq s = Some y \<Longrightarrow> blockchain rq = ''ton'' \<Longrightarrow> checkTime rq \<le> 0 \<Longrightarrow>
     never_stopped w (user_id rq) \<Longrightarrow> \<forall>k. \<not> found w rq k \<Longrightarrow>
     elapsed s \<le> timeInterval rq \<Longrightarrow> \<not> is_set (stop_events s) (user_id rq) \<Longrightarrow> False"
proof (induction rule: monitor_loop_induct)
  case (step loop w rq s y)
  note ton = step.prems(1) and stuck = step.prems(2) and quiet = step.prems(3)
    and no_match = step.prems(4) and le = step.prems(5) and unset = step.prems(6)
  from no_match have "\<not> found w rq (polls s)" by simp
  from poll_cycle_continue [OF unset ton this] obtain s' where s':
    "poll_cycle w rq s = Continue s'" "elapsed s' = elapsed s + checkTime rq"
    "stop_events s' = fold perform (during_sleep w (polls s))
                  (fold perform (during_fetch w (polls s)) (event_for (stop_events s) (user_id rq)))"
    by blast
  have "loop w rq s' = Some y"
    using step.hyps s'(1) le by simp
  moreover have "elapsed s' \<le> timeInterval rq" using s'(2) stuck le by simp
  moreover have "\<not> is_set (stop_events s') (user_id rq)"
    using stays_unset [OF quiet unset] s'(3) by simp
  ultimately show False using step.IH ton stuck quiet no_match by blast
qed

lemma matches_iff:
  "matches trx a m \<longleftrightarrow> trx_amount trx = a \<and> (m = None \<or> trx_memo trx = JStr (the m))"
  by (cases m) (simp_all add: matches_def)

lemma first_match_iff: "first_match trxs a m \<longleftrightarrow> (\<exists>trx\<in>set trxs. matches trx a m)"
  by (induction trxs) auto

lemma found_iff:
  "found w rq k \<longleftrightarrow>
     (\<exists>trx\<in>set (fst (getTonLastTransactions (responses w k))).
        trx_amount trx = amount rq \<and> (memo rq = None \<or> trx_memo trx = JStr (the (memo rq))))"
  by (simp add: found_def first_match_iff matches_iff)

lemma start_unset: "\<not> is_set (clear_event u events) u"
  by (simp add: clear_event_eq is_set_def)

lemma found_quiet_world: "found quiet_world sample_request k \<longleftrightarrow> k = 2"
  by (simp add: found_def quiet_world_def sample_request_def page_payment page_empty
      payment_10_def matches_def)

lemma found_empty_world: "\<not> found empty_world rq k"
  by (simp add: found_def empty_world_def page_empty)

lemma never_stopped_quiet: "never_stopped quiet_world u" "never_stopped empty_world u"
  by (simp_all add: never_stopped_def quiet_world_def empty_world_def)

section \<open>The outcome of a session\<close>

text \<open>
  C1. A session for \<open>ton\<close> with a positive \<open>checkTime\<close> that nobody cancels returns, and it
  returns \<open>True\<close> exactly when some poll \<open>k\<close>, issued at \<open>i = k * checkTime\<close> with
  \<open>i \<le> timeInterval\<close>, fetches a page with a transaction whose amount is the expected
  string and whose memo is the expected one when a memo is expected. The bound is inclusive:
  the poll at \<open>i = timeInterval\<close> is still made.
\<close>

theorem monitor_true_iff_match_in_budget:
  assumes "blockchain rq = ''ton''" and "0 < checkTime rq" and "never_stopped w (user_id rq)"
  shows "\<exists>s. monitorTransactions w rq events =
           Some (Inr (\<exists>k. int k * checkTime rq \<le> timeInterval rq \<and>
                        (\<exists>trx\<in>set (fst (getTonLastTransactions (responses w k))).
                            trx_amount trx = amount rq \<and>
                            (memo rq = None \<or> trx_memo trx = JStr (the (memo rq))))), s)"
proof -
  let ?s0 = "\<lparr>stop_events = clear_event (user_id rq) events, elapsed = 0, polls = 0, trace = []\<rparr>"
  have "\<not> is_set (stop_events ?s0) (user_id rq)" by (simp add: start_unset)
  from loop_outcome [OF assms this] obtain s where
    "monitor_loop w rq ?s0 = Some (Inr (\<exists>j. int j * checkTime rq \<le> timeInterval rq \<and> found w rq j), s)"
    by auto
  then show ?thesis by (simp add: monitorTransactions_def found_iff)
qed

text \<open>
  The scenario of the specification: a budget of 10, polled every 5, the payment on the page
  of the third poll, at \<open>i = 10\<close>: the session returns \<open>True\<close>. With a budget of 9 the
  third poll is not made and the session returns \<open>False\<close>.
\<close>

theorem monitor_true_iff_match_in_budget_witness:
  "blockchain sample_request = ''ton'' \<and> 0 < checkTime sample_request
   \<and> never_stopped quiet_world (user_id sample_request)
   \<and> timeInterval sample_request = 10 \<and> checkTime sample_request = 5
   \<and> (\<exists>s. monitorTransactions quiet_world sample_request Map.empty = Some (Inr True, s))
   \<and> (\<exists>s. monitorTransactions quiet_world (sample_request\<lparr>timeInterval := 9\<rparr>) Map.empty
            = Some (Inr False, s))"
proof -
  define rq9 where "rq9 = sample_request\<lparr>timeInterval := 9\<rparr>"
  have ton: "blockchain sample_request = ''ton''" "blockchain rq9 = ''ton''"
    and pos: "0 < checkTime sample_request" "0 < checkTime rq9"
    and quiet: "never_stopped quiet_world (user_id sample_request)"
      "never_stopped quiet_world (user_id rq9)"
    by (simp_all add: sample_request_def rq9_def never_stopped_quiet)
  have "found quiet_world rq9 k = found quiet_world sample_request k" for k
    by (simp add: found_def rq9_def)
  then have found9: "found quiet_world rq9 k \<longleftrightarrow> k = 2" for k
    by (simp add: found_quiet_world)
  have "int 2 * checkTime sample_request \<le> timeInterval sample_request
          \<and> found quiet_world sample_request 2"
    by (simp add: found_quiet_world) (simp add: sample_request_def)
  then have third: "(\<exists>k. int k * checkTime sample_request \<le> timeInterval sample_request
                   \<and> found quiet_world sample_request k) = True"
    by blast
  have late: "(\<exists>k. int k * checkTime rq9 \<le> timeInterval rq9 \<and> found quiet_world rq9 k) = False"
    by (simp add: found9) (simp add: rq9_def sample_request_def)
  from monitor_true_iff_match_in_budget [OF ton(1) pos(1) quiet(1), of Map.empty]
  have a: "\<exists>s. monitorTransactions quiet_world sample_request Map.empty = Some (Inr True, s)"
    unfolding found_iff [symmetric] third .
  from monitor_true_iff_match_in_budget [OF ton(2) pos(2) quiet(2), of Map.empty]
  have b: "\<exists>s. monitorTransactions quiet_world rq9 Map.empty = Some (Inr False, s)"
    unfolding found_iff [symmetric] late .
  show ?thesis using ton(1) pos(1) quiet(1) a b by (simp add: sample_request_def rq9_def)
qed

lemma fetches_reraise [simp]: "fetches (trace (reraise e s)) = fetches (trace s)"
  by (simp add: reraise_def)

section \<open>Termination\<close>

text \<open>The counted loop returns what the loop returns, and returns when the loop does.\<close>

lemmas counted_loop_induct = counted_loop.raw_induct [rotated 1, consumes 1, case_names step]

lemma counted_loop_expired:
  "\<not> elapsed s \<le> timeInterval rq \<Longrightarrow> counted_loop w rq s n = Some ((Inr False, s), n)"
  by (subst counted_loop.simps) simp

lemma counted_loop_return:
  assumes "elapsed s \<le> timeInterval rq" and "poll_cycle w rq s = Return r s'"
  shows "counted_loop w rq s n = Some ((r, s'), Suc n)"
  using assms by (subst counted_loop.simps) simp

lemma counted_loop_continue:
  assumes "elapsed s \<le> timeInterval rq" and "poll_cycle w rq s = Continue s'"
  shows "counted_loop w rq s n = counted_loop w rq s' (Suc n)"
  using assms by (subst counted_loop.simps) simp

lemma counted_loop_result:
  "counted_loop w rq s n = Some z \<Longrightarrow> monitor_loop w rq s = Some (fst z)"
proof (induction rule: counted_loop_induct)
  case (step loop w rq s n z)
  show ?case
  proof (cases "elapsed s \<le> timeInterval rq")
    case False
    with step.hyps show ?thesis by (auto simp: monitor_loop_expired)
  next
    case True
    show ?thesis
    proof (cases "poll_cycle w rq s")
      case (Return r s')
      with step.hyps True show ?thesis by (auto simp: monitor_loop_return)
    next
      case (Continue s')
      with step.hyps True have "loop w rq s' (Suc n) = Some z" by simp
      from step.IH [OF this] show ?thesis
        using monitor_loop_continue [OF True Continue] by simp
    qed
  qed
qed

lemma monitor_loop_counted:
  "monitor_loop w rq s = Some y \<Longrightarrow> \<exists>m. counted_loop w rq s n = Some (y, m)"
proof (induction arbitrary: n rule: monitor_loop_induct)
  case (step loop w rq s y)
  show ?case
  proof (cases "elapsed s \<le> timeInterval rq")
    case False
    with step.hyps show ?thesis by (auto simp: counted_loop_expired)
  next
    case True
    show ?thesis
    proof (cases "poll_cycle w rq s")
      case (Return r s')
      with step.hyps True show ?thesis by (auto simp: counted_loop_return)
    next
      case (Continue s')
      with step.hyps True have "loop w rq s' = Some y" by simp
      from step.IH [OF this, of "Suc n"] show ?thesis
        using counted_loop_continue [OF True Continue] by simp
    qed
  qed
qed

lemma counted_loop_is_monitor_loop:
  "map_option fst (counted_loop w rq s n) = monitor_loop w rq s"
proof (cases "counted_loop w rq s n")
  case None
  have "monitor_loop w rq s = None"
  proof (cases "monitor_loop w rq s")
    case (Some y)
    from monitor_loop_counted [OF this, of n] None show ?thesis by simp
  qed simp
  with None show ?thesis by simp
next
  case (Some z)
  from counted_loop_result [OF this] Some show ?thesis by simp
qed

lemma counted_loop_terminates:
  assumes pos: "0 < checkTime rq"
  shows "\<exists>r s' m. counted_loop w rq s n = Some ((r, s'), m)
           \<and> m \<le> n + nat ((timeInterval rq - elapsed s) div checkTime rq + 1)
           \<and> fetches (trace s') + n \<le> fetches (trace s) + m"
proof (induction "nat (timeInterval rq - elapsed s + 1)" arbitrary: s n rule: less_induct)
  case less
  let ?budget = "\<lambda>s. nat ((timeInterval rq - elapsed s) div checkTime rq + 1)"
  show ?case
  proof (cases "elapsed s \<le> timeInterval rq")
    case False
    then show ?thesis by (simp add: counted_loop_expired)
  next
    case True
    then have "0 \<le> (timeInterval rq - elapsed s) div checkTime rq"
      using pos by (simp add: pos_imp_zdiv_nonneg_iff)
    then have one: "1 \<le> ?budget s" by simp
    consider (stopped) "is_set (stop_events s) (user_id rq)"
      | (unsupported) "\<not> is_set (stop_events s) (user_id rq)" "blockchain rq \<noteq> ''ton''"
      | (found) "\<not> is_set (stop_events s) (user_id rq)" "blockchain rq = ''ton''" "found w rq (polls s)"
      | (continue) "\<not> is_set (stop_events s) (user_id rq)" "blockchain rq = ''ton''" "\<not> found w rq (polls s)"
      by blast
    then show ?thesis
    proof cases
      case stopped
      then show ?thesis using True one
        by (simp add: counted_loop_return [OF True poll_cycle_stopped])
    next
      case unsupported
      then show ?thesis using True one
        by (simp add: counted_loop_return [OF True poll_cycle_unsupported])
    next
      case found
      from poll_cycle_found [OF found] obtain s' where
        "poll_cycle w rq s = Return (Inr True) s'" "fetches (trace s') = Suc (fetches (trace s))"
        by blast
      then show ?thesis using True one by (simp add: counted_loop_return)
    next
      case continue
      from poll_cycle_continue [OF continue] obtain s' where s':
        "poll_cycle w rq s = Continue s'" "elapsed s' = elapsed s + checkTime rq"
        "fetches (trace s') = Suc (fetches (trace s))"
        by blast
      have "nat (timeInterval rq - elapsed s' + 1) < nat (timeInterval rq - elapsed s + 1)"
        using s'(2) pos True by simp
      from less.hyps [OF this, of "Suc n"] obtain r t m where t:
        "counted_loop w rq s' (Suc n) = Some ((r, t), m)"
        "m \<le> Suc n + ?budget s'" "fetches (trace t) + Suc n \<le> fetches (trace s') + m" by blast
      have "(timeInterval rq - elapsed s') div checkTime rq
              = (timeInterval rq - elapsed s) div checkTime rq - 1"
        using pos s'(2) div_add_self2 [of "checkTime rq" "timeInterval rq - elapsed s'"]
        by (simp add: algebra_simps)
      then have "Suc (?budget s') = ?budget s"
        using \<open>0 \<le> (timeInterval rq - elapsed s) div checkTime rq\<close> by simp
      with t s'(1,3) True show ?thesis by (simp add: counted_loop_continue)
    qed
  qed
qed

text \<open>
  C10, as the code has it. A session for \<open>ton\<close> with a positive \<open>checkTime\<close> returns,
  whatever the pages and whoever interferes, after at most
  \<open>max 0 (timeInterval div checkTime + 1)\<close> poll cycles, which is
  \<open>timeInterval div checkTime + 1\<close> as soon as \<open>- checkTime \<le> timeInterval\<close>; it issues no
  more requests than it runs cycles. With a budget that is not negative, a \<open>checkTime\<close> of
  zero or less, pages that never match and nobody cancelling, \<open>i\<close> never passes
  \<open>timeInterval\<close> and the call does not return. With a negative budget the loop is not
  entered: the call returns \<open>False\<close> at once, without a cycle, whatever \<open>checkTime\<close> is.
\<close>

theorem monitor_terminates_iff_positive_checkTime:
  assumes "blockchain rq = ''ton''"
  shows "(0 < checkTime rq \<longrightarrow>
            (\<exists>r s n. monitorTransactions w rq events = Some (r, s)
                 \<and> poll_cycles w rq events = Some n
                 \<and> int n \<le> max 0 (timeInterval rq div checkTime rq + 1)
                 \<and> (- checkTime rq \<le> timeInterval rq \<longrightarrow>
                      int n \<le> timeInterval rq div checkTime rq + 1)
                 \<and> fetches (trace s) \<le> n))
       \<and> (0 \<le> timeInterval rq \<and> checkTime rq \<le> 0 \<and> never_stopped w (user_id rq)
            \<and> (\<forall>k. \<not> found w rq k) \<longrightarrow>
            monitorTransactions w rq events = None \<and> poll_cycles w rq events = None)
       \<and> (timeInterval rq < 0 \<longrightarrow>
            monitorTransactions w rq events =
              Some (Inr False, \<lparr>stop_events = clear_event (user_id rq) events, elapsed = 0,
                                 polls = 0, trace = []\<rparr>)
            \<and> poll_cycles w rq events = Some 0)"
proof (intro conjI impI)
  let ?s0 = "\<lparr>stop_events = clear_event (user_id rq) events, elapsed = 0, polls = 0, trace = []\<rparr>"
  {
    assume pos: "0 < checkTime rq"
    from counted_loop_terminates [OF pos, of w ?s0 0] obtain r s n where s:
      "counted_loop w rq ?s0 0 = Some ((r, s), n)"
      "n \<le> nat (timeInterval rq div checkTime rq + 1)" "fetches (trace s) \<le> n" by auto
    have loop: "monitor_loop w rq ?s0 = Some (r, s)"
      using counted_loop_result [OF s(1)] by simp
    have n: "int n \<le> max 0 (timeInterval rq div checkTime rq + 1)"
      using s(2) by linarith
    have "int n \<le> timeInterval rq div checkTime rq + 1" if "- checkTime rq \<le> timeInterval rq"
    proof -
      have "- 1 \<le> timeInterval rq div checkTime rq"
        using that pos
          pos_imp_zdiv_nonneg_iff [of "checkTime rq" "timeInterval rq + checkTime rq"]
        by simp
      with n show ?thesis by linarith
    qed
    with loop s(1,3) n
    show "\<exists>r s n. monitorTransactions w rq events = Some (r, s)
                 \<and> poll_cycles w rq events = Some n
                 \<and> int n \<le> max 0 (timeInterval rq div checkTime rq + 1)
                 \<and> (- checkTime rq \<le> timeInterval rq \<longrightarrow>
                      int n \<le> timeInterval rq div checkTime rq + 1)
                 \<and> fetches (trace s) \<le> n"
      by (cases r) (simp_all add: monitorTransactions_def poll_cycles_def)
  }
  {
    assume stuck: "0 \<le> timeInterval rq \<and> checkTime rq \<le> 0 \<and> never_stopped w (user_id rq)
            \<and> (\<forall>k. \<not> found w rq k)"
    have none: "monitor_loop w rq ?s0 = None"
    proof (cases "monitor_loop w rq ?s0")
      case (Some y)
      from loop_never_returns [OF this assms] stuck show ?thesis
        by (simp add: start_unset)
    qed simp
    then show "monitorTransactions w rq events = None"
      by (simp add: monitorTransactions_def)
    from none counted_loop_is_monitor_loop [of w rq ?s0 0]
    show "poll_cycles w rq events = None"
      by (simp add: poll_cycles_def)
  }
  {
    assume neg: "timeInterval rq < 0"
    then show "monitorTransactions w rq events = Some (Inr False, ?s0)"
      by (simp add: monitorTransactions_def monitor_loop_expired)
    from neg show "poll_cycles w rq events = Some 0"
      by (simp add: poll_cycles_def counted_loop_expired)
  }
qed

text \<open>
  The sample session runs at most 3 cycles; with \<open>checkTime = 0\<close> on empty pages it runs
  forever; with \<open>timeInterval = -1\<close> it returns \<open>False\<close> without a cycle.
\<close>

theorem monitor_terminates_iff_positive_checkTime_witness:
  "blockchain sample_request = ''ton''
   \<and> (\<exists>r s n. monitorTransactions quiet_world sample_request Map.empty = Some (r, s)
             \<and> poll_cycles quiet_world sample_request Map.empty = Some n
             \<and> n \<le> 3 \<and> fetches (trace s) \<le> n)
   \<and> never_stopped empty_world ''alice''
   \<and> (\<forall>k. \<not> found empty_world (sample_request\<lparr>checkTime := 0\<rparr>) k)
   \<and> monitorTransactions empty_world (sample_request\<lparr>checkTime := 0\<rparr>) Map.empty = None
   \<and> poll_cycles empty_world (sample_request\<lparr>checkTime := 0\<rparr>) Map.empty = None
   \<and> monitorTransactions quiet_world (sample_request\<lparr>timeInterval := - 1\<rparr>) Map.empty
       = Some (Inr False, \<lparr>stop_events = [''alice'' \<mapsto> False], elapsed = 0, polls = 0, trace = []\<rparr>)
   \<and> poll_cycles quiet_world (sample_request\<lparr>timeInterval := - 1\<rparr>) Map.empty = Some 0"
proof -
  define rq0 where "rq0 = sample_request\<lparr>checkTime := 0\<rparr>"
  define rqn where "rqn = sample_request\<lparr>timeInterval := - 1\<rparr>"
  have ton: "blockchain sample_request = ''ton''" "blockchain rq0 = ''ton''" "blockchain rqn = ''ton''"
    by (simp_all add: sample_request_def rq0_def rqn_def)
  have pos: "0 < checkTime sample_request"
    and three: "max 0 (timeInterval sample_request div checkTime sample_request + 1) = 3"
    by (simp_all add: sample_request_def)
  have stuck: "0 \<le> timeInterval rq0 \<and> checkTime rq0 \<le> 0 \<and> never_stopped empty_world (user_id rq0)
                 \<and> (\<forall>k. \<not> found empty_world rq0 k)"
    by (simp add: found_empty_world never_stopped_quiet) (simp add: rq0_def sample_request_def)
  have neg: "timeInterval rqn < 0" by (simp add: rqn_def)
  from monitor_terminates_iff_positive_checkTime [OF ton(1), of quiet_world Map.empty] pos
  have a: "\<exists>r s n. monitorTransactions quiet_world sample_request Map.empty = Some (r, s)
             \<and> poll_cycles quiet_world sample_request Map.empty = Some n
             \<and> n \<le> 3 \<and> fetches (trace s) \<le> n"
    unfolding three by fastforce
  from monitor_terminates_iff_positive_checkTime [OF ton(2), of empty_world Map.empty] stuck
  have b: "monitorTransactions empty_world rq0 Map.empty = None"
    "poll_cycles empty_world rq0 Map.empty = None"
    by blast+
  from monitor_terminates_iff_positive_checkTime [OF ton(3), of quiet_world Map.empty] neg
  have c: "monitorTransactions quiet_world rqn Map.empty
       = Some (Inr False, \<lparr>stop_events = clear_event (user_id rqn) Map.empty, elapsed = 0,
                            polls = 0, trace = []\<rparr>)"
    "poll_cycles quiet_world rqn Map.empty = Some 0"
    by blast+
  have "clear_event (user_id rqn) Map.empty = [''alice'' \<mapsto> False]"
    by (simp add: clear_event_eq rqn_def sample_request_def)
  with ton(1) a b c show ?thesis
    by (simp add: rq0_def rqn_def found_empty_world never_stopped_quiet)
qed

text \<open>
  C10 as it is worded fails twice for a negative budget. With \<open>timeInterval = -7\<close> and
  \<open>checkTime = 5\<close> the bound \<open>timeInterval div checkTime + 1\<close> is \<open>-1\<close>, below the zero
  cycles that the call runs. With \<open>timeInterval = -1\<close> and \<open>checkTime = 0\<close>, empty pages and
  nobody cancelling, the call returns \<open>False\<close> although \<open>checkTime\<close> is not positive.
\<close>

theorem negative_budget_returns_at_once:
  "blockchain (sample_request\<lparr>timeInterval := - 7\<rparr>) = ''ton''
   \<and> 0 < checkTime (sample_request\<lparr>timeInterval := - 7\<rparr>)
   \<and> timeInterval (sample_request\<lparr>timeInterval := - 7\<rparr>)
         div checkTime (sample_request\<lparr>timeInterval := - 7\<rparr>) + 1 = - 1
   \<and> poll_cycles empty_world (sample_request\<lparr>timeInterval := - 7\<rparr>) Map.empty = Some 0
   \<and> blockchain (sample_request\<lparr>timeInterval := - 1, checkTime := 0\<rparr>) = ''ton''
   \<and> checkTime (sample_request\<lparr>timeInterval := - 1, checkTime := 0\<rparr>) = 0
   \<and> never_stopped empty_world ''alice''
   \<and> (\<forall>k. \<not> found empty_world (sample_request\<lparr>timeInterval := - 1, checkTime := 0\<rparr>) k)
   \<and> monitorTransactions empty_world (sample_request\<lparr>timeInterval := - 1, checkTime := 0\<rparr>) Map.empty
       = Some (Inr False, \<lparr>stop_events = [''alice'' \<mapsto> False], elapsed = 0, polls = 0, trace = []\<rparr>)"
proof -
  have "poll_cycles empty_world (sample_request\<lparr>timeInterval := - 7\<rparr>) Map.empty = Some 0"
    by (simp add: poll_cycles_def counted_loop_expired)
  moreover have "monitorTransactions empty_world
        (sample_request\<lparr>timeInterval := - 1, checkTime := 0\<rparr>) Map.empty
       = Some (Inr False, \<lparr>stop_events = [''alice'' \<mapsto> False], elapsed = 0, polls = 0, trace = []\<rparr>)"
    by (simp add: monitorTransactions_def monitor_loop_expired clear_event_eq)
       (simp add: sample_request_def)
  ultimately show ?thesis
    by (simp add: found_empty_world never_stopped_quiet) (simp add: sample_request_def)
qed

section \<open>Cancellation\<close>

lemma fold_perform_stopped:
  assumes "filter (\<lambda>a. subject a = u) acts \<noteq> []"
    and "last (filter (\<lambda>a. subject a = u) acts) = Stop u"
  shows "is_set (fold perform acts events) u"
  using assms by (simp add: is_set_def fold_perform_at Let_def)

text \<open>
  C2, as the code has it. When the subject's stop event is set at the top of a cycle, the
  loop returns \<open>False\<close> in the state it is in: no request and no sleep are added to the
  trace. Hence, when the last thing the other tasks do to the subject's event during a cycle
  without a match is a call of \<open>stop_monitoring\<close>, the session finishes that cycle, one
  request and one sleep, and returns \<open>False\<close> without another request.
\<close>

theorem stop_seen_at_top_of_cycle:
  "(elapsed s \<le> timeInterval rq \<and> is_set (stop_events s) (user_id rq) \<longrightarrow>
       monitor_loop w rq s = Some (Inr False, s))
   \<and> (blockchain rq = ''ton'' \<and> elapsed s \<le> timeInterval rq
        \<and> \<not> is_set (stop_events s) (user_id rq) \<and> \<not> found w rq (polls s)
        \<and> filter (\<lambda>a. subject a = user_id rq) (during_fetch w (polls s) @ during_sleep w (polls s)) \<noteq> []
        \<and> last (filter (\<lambda>a. subject a = user_id rq)
                   (during_fetch w (polls s) @ during_sleep w (polls s))) = Stop (user_id rq) \<longrightarrow>
       (\<exists>s'. monitor_loop w rq s = Some (Inr False, s')
            \<and> fetches (trace s') = Suc (fetches (trace s))
            \<and> sleeps (trace s') = Suc (sleeps (trace s))))"
proof (intro conjI impI)
  assume "elapsed s \<le> timeInterval rq \<and> is_set (stop_events s) (user_id rq)"
  then show "monitor_loop w rq s = Some (Inr False, s)"
    by (simp add: monitor_loop_stopped)
next
  let ?u = "user_id rq"
  let ?acts = "during_fetch w (polls s) @ during_sleep w (polls s)"
  assume a: "blockchain rq = ''ton'' \<and> elapsed s \<le> timeInterval rq
        \<and> \<not> is_set (stop_events s) ?u \<and> \<not> found w rq (polls s)
        \<and> filter (\<lambda>a. subject a = ?u) ?acts \<noteq> []
        \<and> last (filter (\<lambda>a. subject a = ?u) ?acts) = Stop ?u"
  then have ton: "blockchain rq = ''ton''" and le: "elapsed s \<le> timeInterval rq"
    and unset: "\<not> is_set (stop_events s) ?u" and nf: "\<not> found w rq (polls s)"
    and mine: "filter (\<lambda>a. subject a = ?u) ?acts \<noteq> []"
      "last (filter (\<lambda>a. subject a = ?u) ?acts) = Stop ?u"
    by blast+
  from poll_cycle_continue [OF unset ton nf] obtain s' where s':
    "poll_cycle w rq s = Continue s'"
    "fetches (trace s') = Suc (fetches (trace s))" "sleeps (trace s') = Suc (sleeps (trace s))"
    "stop_events s' = fold perform (during_sleep w (polls s))
        (fold perform (during_fetch w (polls s)) (event_for (stop_events s) ?u))"
    by blast
  have "stop_events s' = fold perform ?acts (event_for (stop_events s) ?u)"
    using s'(4) by simp
  then have "is_set (stop_events s') ?u"
    using fold_perform_stopped [OF mine] by simp
  then have "monitor_loop w rq s' = Some (Inr False, s')"
    by (cases "elapsed s' \<le> timeInterval rq") (simp_all add: monitor_loop_stopped monitor_loop_expired)
  then have "monitor_loop w rq s = Some (Inr False, s')"
    using monitor_loop_continue [OF le s'(1)] by simp
  with s'(2,3) show "\<exists>s'. monitor_loop w rq s = Some (Inr False, s')
            \<and> fetches (trace s') = Suc (fetches (trace s))
            \<and> sleeps (trace s') = Suc (sleeps (trace s))"
    by blast
qed

lemmas run_defs =
  monitor_loop.simps poll_cycle_def clear_event_eq stop_monitoring_eq event_for_def is_set_def
  reraise_def matches_def

text \<open>
  In \<open>cancelling_world\<close> the stop arrives during the first sleep: a state with the event
  set returns \<open>False\<close> unchanged, and the whole session returns \<open>False\<close> after one request
  and one sleep.
\<close>

theorem stop_seen_at_top_of_cycle_witness:
  "monitor_loop cancelling_world sample_request
      \<lparr>stop_events = [''alice'' \<mapsto> True], elapsed = 5, polls = 1,
       trace = [Fetch ''EQwallet'', Sleep 5]\<rparr>
     = Some (Inr False, \<lparr>stop_events = [''alice'' \<mapsto> True], elapsed = 5, polls = 1,
                         trace = [Fetch ''EQwallet'', Sleep 5]\<rparr>)
   \<and> (\<exists>s'. monitorTransactions cancelling_world sample_request Map.empty = Some (Inr False, s')
           \<and> fetches (trace s') = 1 \<and> sleeps (trace s') = 1)"
proof -
  let ?s1 = "\<lparr>stop_events = [''alice'' \<mapsto> True], elapsed = 5, polls = 1,
       trace = [Fetch ''EQwallet'', Sleep 5]\<rparr> :: string session"
  let ?s0 = "\<lparr>stop_events = clear_event (user_id sample_request) Map.empty, elapsed = 0, polls = 0,
       trace = []\<rparr> :: string session"
  have "elapsed ?s1 \<le> timeInterval sample_request \<and> is_set (stop_events ?s1) (user_id sample_request)"
    by (simp add: sample_request_def is_set_def)
  with stop_seen_at_top_of_cycle [of ?s1 sample_request cancelling_world]
  have a: "monitor_loop cancelling_world sample_request ?s1 = Some (Inr False, ?s1)"
    by blast
  have "blockchain sample_request = ''ton'' \<and> elapsed ?s0 \<le> timeInterval sample_request
        \<and> \<not> is_set (stop_events ?s0) (user_id sample_request)
        \<and> \<not> found cancelling_world sample_request (polls ?s0)
        \<and> filter (\<lambda>a. subject a = user_id sample_request)
             (during_fetch cancelling_world (polls ?s0) @ during_sleep cancelling_world (polls ?s0)) \<noteq> []
        \<and> last (filter (\<lambda>a. subject a = user_id sample_request)
             (during_fetch cancelling_world (polls ?s0) @ during_sleep cancelling_world (polls ?s0)))
            = Stop (user_id sample_request)"
    by (simp add: start_unset found_def cancelling_world_def empty_world_def page_empty)
       (simp add: sample_request_def)
  with stop_seen_at_top_of_cycle [of ?s0 sample_request cancelling_world]
  obtain s' where "monitor_loop cancelling_world sample_request ?s0 = Some (Inr False, s')"
    "fetches (trace s') = Suc (fetches (trace ?s0))" "sleeps (trace s') = Suc (sleeps (trace ?s0))"
    by blast
  then have b: "\<exists>s'. monitorTransactions cancelling_world sample_request Map.empty = Some (Inr False, s')
           \<and> fetches (trace s') = 1 \<and> sleeps (trace s') = 1"
    by (simp add: monitorTransactions_def)
  from a b show ?thesis by simp
qed

text \<open>
  C2 as it is worded fails for a stop that is not the last word of a cycle without a match.
  In \<open>late_stop_world\<close> the stop arrives while the first request is under way and the page
  of that request holds the payment: the session returns \<open>True\<close> with its event set. In
  \<open>restart_world\<close> the stop of the first sleep is followed by the start of another session
  for the same subject, which clears the event: the session polls on and returns \<open>True\<close>.
\<close>

theorem stop_mid_run_can_return_true:
  "Stop ''alice'' \<in> set (during_fetch late_stop_world 0)
   \<and> monitorTransactions late_stop_world sample_request Map.empty
       = Some (Inr True, \<lparr>stop_events = [''alice'' \<mapsto> True], elapsed = 0, polls = 1,
                           trace = [Fetch ''EQwallet'']\<rparr>)
   \<and> Stop ''alice'' \<in> set (during_sleep restart_world 0)
   \<and> monitorTransactions restart_world sample_request Map.empty
       = Some (Inr True, \<lparr>stop_events = [''alice'' \<mapsto> False], elapsed = 10, polls = 3,
                           trace = [Fetch ''EQwallet'', Sleep 5, Fetch ''EQwallet'', Sleep 5,
                                    Fetch ''EQwallet'']\<rparr>)"
proof -
  have "monitorTransactions late_stop_world sample_request Map.empty
       = Some (Inr True, \<lparr>stop_events = [''alice'' \<mapsto> True], elapsed = 0, polls = 1,
                           trace = [Fetch ''EQwallet'']\<rparr>)"
    by (simp add: monitorTransactions_def run_defs late_stop_world_def sample_request_def
        page_payment payment_10_def Let_def)
  moreover have "monitorTransactions restart_world sample_request Map.empty
       = Some (Inr True, \<lparr>stop_events = [''alice'' \<mapsto> False], elapsed = 10, polls = 3,
                           trace = [Fetch ''EQwallet'', Sleep 5, Fetch ''EQwallet'', Sleep 5,
                                    Fetch ''EQwallet'']\<rparr>)"
    by (simp add: monitorTransactions_def run_defs restart_world_def quiet_world_def
        sample_request_def page_payment page_empty payment_10_def Let_def)
  ultimately show ?thesis
    by (simp add: late_stop_world_def restart_world_def)
qed

section \<open>The match\<close>

text \<open>
  C7. A transaction matches exactly when its amount is the expected string and, when a memo
  is expected, its memo is that string. The \<open>success\<close> flag plays no part, and the amounts
  \<open>1\<close> and \<open>1.0\<close> are different strings. The loop over a page returns \<open>True\<close> exactly
  when some transaction of the page matches.
\<close>

theorem matches_is_string_equality:
  "(matches trx a m \<longleftrightarrow> trx_amount trx = a \<and> (m = None \<or> trx_memo trx = JStr (the m)))
   \<and> matches (trx\<lparr>trx_success := b\<rparr>) a m = matches trx a m
   \<and> \<not> matches (trx\<lparr>trx_amount := ''1.0''\<rparr>) ''1'' m
   \<and> \<not> matches (trx\<lparr>trx_amount := ''1''\<rparr>) ''1.0'' m
   \<and> (first_match trxs a m \<longleftrightarrow> (\<exists>t\<in>set trxs. matches t a m))"
  by (simp add: matches_iff first_match_iff)

text \<open>The payment of 10 TON with the memo \<open>x\<close>, whose \<open>success\<close> flag is \<open>False\<close>.\<close>

theorem matches_is_string_equality_witness:
  "trx_success payment_10 = JBool False
   \<and> matches payment_10 ''10'' (Some ''x'') \<and> matches payment_10 ''10'' None
   \<and> \<not> matches payment_10 ''10.0'' None \<and> \<not> matches payment_10 ''10'' (Some ''X'')
   \<and> first_match [payment_10] ''10'' None"
  using matches_is_string_equality [of payment_10 "''10''" "Some ''x''" "JBool False" "[payment_10]"]
    matches_is_string_equality [of payment_10 "''10''" None "JBool False" "[payment_10]"]
    matches_is_string_equality [of payment_10 "''10.0''" None "JBool False" "[payment_10]"]
    matches_is_string_equality [of payment_10 "''10''" "Some ''X''" "JBool False" "[payment_10]"]
  by (simp add: payment_10_def)

section \<open>Starting after a stop\<close>

text \<open>
  C8. A session started after \<open>stop_monitoring\<close> for its subject runs exactly as one started
  without it, to the same result and the same final state: the first statement clears the
  event that the stop had set.
\<close>

theorem stop_before_start_is_cleared:
  "monitorTransactions w rq (stop_monitoring (user_id rq) events) = monitorTransactions w rq events
   \<and> \<not> is_set (clear_event (user_id rq) (stop_monitoring (user_id rq) events)) (user_id rq)
   \<and> is_set (stop_monitoring (user_id rq) events) (user_id rq)"
  by (simp add: monitorTransactions_def clear_event_eq stop_monitoring_eq is_set_def)

section \<open>Unsupported blockchains\<close>

text \<open>
  The test of the blockchain is the second statement of the loop body. With a budget that
  is not negative the first cycle reaches it, before any request.
\<close>

lemma unsupported_blockchain_raises:
  assumes "blockchain rq \<noteq> ''ton''" and "0 \<le> timeInterval rq"
  shows "monitorTransactions w rq events =
           Some (Inl (ValueError (''Unsupported blockchain type: '' @ blockchain rq)),
                 \<lparr>stop_events = events(user_id rq \<mapsto> False), elapsed = 0, polls = 0,
                  trace = [Print (''ValueError: Unsupported blockchain type: '' @ blockchain rq)]\<rparr>)"
proof -
  let ?s0 = "\<lparr>stop_events = events(user_id rq \<mapsto> False), elapsed = 0, polls = 0, trace = []\<rparr>"
  have "\<not> is_set (stop_events ?s0) (user_id rq)" by (simp add: is_set_def)
  from poll_cycle_unsupported [OF this assms(1), of w]
  have "monitor_loop w rq ?s0 =
          Some (Inl (ValueError (''Unsupported blockchain type: '' @ blockchain rq)), ?s0)"
    using assms(2) by (subst monitor_loop.simps) (simp add: event_for_def)
  then show ?thesis
    by (simp add: monitorTransactions_def clear_event_eq reraise_def)
qed

text \<open>
  C5, for \<open>btc\<close> with \<open>timeInterval = -1\<close>: the loop body is never run, so the call
  returns \<open>False\<close> and no \<open>ValueError\<close> is raised. With \<open>timeInterval = 0\<close> it is raised.
\<close>

theorem unsupported_blockchain_not_rejected:
  "blockchain (sample_request\<lparr>blockchain := ''btc'', timeInterval := - 1\<rparr>) \<noteq> ''ton''
   \<and> monitorTransactions quiet_world (sample_request\<lparr>blockchain := ''btc'', timeInterval := - 1\<rparr>)
        Map.empty
       = Some (Inr False, \<lparr>stop_events = [''alice'' \<mapsto> False], elapsed = 0, polls = 0, trace = []\<rparr>)
   \<and> monitorTransactions quiet_world (sample_request\<lparr>blockchain := ''btc'', timeInterval := 0\<rparr>)
        Map.empty
       = Some (Inl (ValueError ''Unsupported blockchain type: btc''),
               \<lparr>stop_events = [''alice'' \<mapsto> False], elapsed = 0, polls = 0,
                trace = [Print ''ValueError: Unsupported blockchain type: btc'']\<rparr>)"
proof -
  have "monitorTransactions quiet_world (sample_request\<lparr>blockchain := ''btc'', timeInterval := - 1\<rparr>)
        Map.empty
       = Some (Inr False, \<lparr>stop_events = [''alice'' \<mapsto> False], elapsed = 0, polls = 0, trace = []\<rparr>)"
    by (simp add: monitorTransactions_def monitor_loop_expired clear_event_eq)
       (simp add: sample_request_def)
  moreover have "monitorTransactions quiet_world (sample_request\<lparr>blockchain := ''btc'', timeInterval := 0\<rparr>)
        Map.empty
       = Some (Inl (ValueError ''Unsupported blockchain type: btc''),
               \<lparr>stop_events = [''alice'' \<mapsto> False], elapsed = 0, polls = 0,
                trace = [Print ''ValueError: Unsupported blockchain type: btc'']\<rparr>)"
    by (subst unsupported_blockchain_raises) (simp_all add: sample_request_def)
  ultimately show ?thesis by simp
qed

section \<open>Failed requests\<close>

lemma poll_cycle_ton_returns:
  assumes "blockchain rq = ''ton''" and "poll_cycle w rq s = Return r s'"
  shows "\<exists>b. r = Inr b"
  using assms by (auto simp: poll_cycle_def Let_def case_prod_beta split: if_splits)

lemma loop_never_raises:
  "monitor_loop w rq s = Some y \<Longrightarrow> blockchain rq = ''ton'' \<Longrightarrow> \<exists>b. fst y = Inr b"
proof (induction rule: monitor_loop_induct)
  case (step loop w rq s y)
  show ?case
  proof (cases "elapsed s \<le> timeInterval rq")
    case False
    with step.hyps show ?thesis by auto
  next
    case True
    show ?thesis
    proof (cases "poll_cycle w rq s")
      case (Return r s')
      with step.hyps True poll_cycle_ton_returns [OF step.prems Return] show ?thesis by auto
    next
      case (Continue s')
      with step.hyps True have "loop w rq s' = Some y" by simp
      from step.IH [OF this step.prems] show ?thesis .
    qed
  qed
qed

text \<open>
  C6. A request that raises, and a body whose parsing raises, both give the empty list (and
  an error in the log). A cycle whose page is empty does not return: it sleeps, advances
  \<open>i\<close> and the loop goes on from there. A session for \<open>ton\<close> that returns, returns a
  bool: no exception reaches the caller.
\<close>

theorem fetch_failure_is_an_empty_page:
  "getTonLastTransactions (Inl e) = ([], [Error e])
   \<and> (page_of data = (Inl e, lg) \<longrightarrow> getTonLastTransactions (Inr data) = ([], lg @ [Error e]))
   \<and> (blockchain rq = ''ton'' \<and> elapsed s \<le> timeInterval rq
        \<and> \<not> is_set (stop_events s) (user_id rq)
        \<and> fst (getTonLastTransactions (responses w (polls s))) = [] \<longrightarrow>
       (\<exists>s'. poll_cycle w rq s = Continue s' \<and> elapsed s' = elapsed s + checkTime rq
            \<and> polls s' = Suc (polls s) \<and> monitor_loop w rq s = monitor_loop w rq s'))
   \<and> (blockchain rq = ''ton'' \<and> monitorTransactions w rq events = Some (r, t) \<longrightarrow>
       (\<exists>b. r = Inr b))"
proof (intro conjI impI)
  show "getTonLastTransactions (Inl e) = ([], [Error e])"
    by (simp add: getTonLastTransactions_def)
next
  assume "page_of data = (Inl e, lg)"
  then show "getTonLastTransactions (Inr data) = ([], lg @ [Error e])"
    by (simp add: getTonLastTransactions_def)
next
  assume a: "blockchain rq = ''ton'' \<and> elapsed s \<le> timeInterval rq
        \<and> \<not> is_set (stop_events s) (user_id rq)
        \<and> fst (getTonLastTransactions (responses w (polls s))) = []"
  then have "\<not> found w rq (polls s)" by (simp add: found_def)
  with a poll_cycle_continue [of s rq w] obtain s' where
    "poll_cycle w rq s = Continue s'" "elapsed s' = elapsed s + checkTime rq"
    "polls s' = Suc (polls s)" by blast
  moreover from this a have "monitor_loop w rq s = monitor_loop w rq s'"
    by (simp add: monitor_loop_continue)
  ultimately show "\<exists>s'. poll_cycle w rq s = Continue s' \<and> elapsed s' = elapsed s + checkTime rq
            \<and> polls s' = Suc (polls s) \<and> monitor_loop w rq s = monitor_loop w rq s'"
    by blast
next
  assume a: "blockchain rq = ''ton'' \<and> monitorTransactions w rq events = Some (r, t)"
  let ?s0 = "\<lparr>stop_events = clear_event (user_id rq) events, elapsed = 0, polls = 0, trace = []\<rparr>"
  show "\<exists>b. r = Inr b"
  proof (cases "monitor_loop w rq ?s0")
    case None
    with a show ?thesis by (simp add: monitorTransactions_def)
  next
    case (Some y)
    with loop_never_raises [OF Some] a obtain b where "fst y = Inr b" by blast
    with Some a show ?thesis
      by (cases y) (auto simp: monitorTransactions_def)
  qed
qed

lemma page_null: "page_of JNull = (Inl AttributeError, [])"
  by (simp add: page_of_def and_then_def)

lemma failing_world_session:
  "monitorTransactions failing_world sample_request Map.empty =
     Some (Inr True,
           \<lparr>stop_events = [''alice'' \<mapsto> False], elapsed = 10, polls = 3,
            trace = [Fetch ''EQwallet'', Log (Error ClientError), Sleep 5,
                     Fetch ''EQwallet'', Log (Error AttributeError), Sleep 5,
                     Fetch ''EQwallet'']\<rparr>)"
  by (simp add: monitorTransactions_def run_defs failing_world_def quiet_world_def sample_request_def
      page_payment payment_10_def getTonLastTransactions_def [of "Inl e" for e]
      getTonLastTransactions_def [of "Inr JNull"] page_null Let_def)

text \<open>
  In \<open>failing_world\<close> the first request raises \<open>ClientError\<close> and the second body is
  \<open>null\<close>; the session polls on and finds the payment with its third request.
\<close>

theorem fetch_failure_is_an_empty_page_witness:
  "getTonLastTransactions (Inl ClientError) = ([], [Error ClientError])
   \<and> page_of JNull = (Inl AttributeError, [])
   \<and> getTonLastTransactions (Inr JNull) = ([], [Error AttributeError])
   \<and> (\<exists>s'. poll_cycle failing_world sample_request
               \<lparr>stop_events = [''alice'' \<mapsto> False], elapsed = 0, polls = 0, trace = []\<rparr>
             = Continue s' \<and> elapsed s' = 5 \<and> polls s' = 1)
   \<and> (\<exists>t. monitorTransactions failing_world sample_request Map.empty = Some (Inr True, t))"
proof -
  let ?s0 = "\<lparr>stop_events = [''alice'' \<mapsto> False], elapsed = 0, polls = 0, trace = []\<rparr> :: string session"
  let ?t = "\<lparr>stop_events = [''alice'' \<mapsto> False], elapsed = 10, polls = 3,
            trace = [Fetch ''EQwallet'', Log (Error ClientError), Sleep 5,
                     Fetch ''EQwallet'', Log (Error AttributeError), Sleep 5,
                     Fetch ''EQwallet'']\<rparr> :: string session"
  note inst = fetch_failure_is_an_empty_page
      [of ClientError JNull "[]" sample_request ?s0 failing_world Map.empty "Inr True" ?t]
  have first: "getTonLastTransactions (Inl ClientError) = ([], [Error ClientError])"
    using inst by blast
  have second: "getTonLastTransactions (Inr JNull) = ([], [Error AttributeError])"
    using fetch_failure_is_an_empty_page
      [of AttributeError JNull "[]" sample_request ?s0 failing_world Map.empty "Inr True" ?t]
      page_null by simp
  have "blockchain sample_request = ''ton'' \<and> elapsed ?s0 \<le> timeInterval sample_request
        \<and> \<not> is_set (stop_events ?s0) (user_id sample_request)
        \<and> fst (getTonLastTransactions (responses failing_world (polls ?s0))) = []"
    by (simp add: failing_world_def first is_set_def) (simp add: sample_request_def)
  with inst obtain s' where "poll_cycle failing_world sample_request ?s0 = Continue s'"
    "elapsed s' = elapsed ?s0 + checkTime sample_request" "polls s' = Suc (polls ?s0)"
    by blast
  then have third: "\<exists>s'. poll_cycle failing_world sample_request ?s0 = Continue s'
      \<and> elapsed s' = 5 \<and> polls s' = 1"
    by (simp add: sample_request_def)
  have "\<exists>b. (Inr True :: error + bool) = Inr b"
    using inst failing_world_session by (simp add: sample_request_def)
  with first second third page_null failing_world_session show ?thesis by simp
qed

section \<open>Sessions of different subjects\<close>

lemma fold_perform_cong:
  assumes "filter (\<lambda>a. subject a = u) acts' = filter (\<lambda>a. subject a = u) acts"
    and "events' u = events u"
  shows "fold perform acts' events' u = fold perform acts events u"
  by (simp add: fold_perform_at assms Let_def)

lemma event_for_cong:
  assumes "events' u = events u"
  shows "event_for events' u u = event_for events u u"
  using assms by (simp add: event_for_def split: option.splits)

lemma poll_cycle_frame:
  assumes same: "same_for (user_id rq) w w'" and seen: "view (user_id rq) s' = view (user_id rq) s"
  shows "case poll_cycle w rq s of
           Return r t \<Rightarrow> \<exists>t'. poll_cycle w' rq s' = Return r t' \<and> view (user_id rq) t' = view (user_id rq) t
         | Continue t \<Rightarrow> \<exists>t'. poll_cycle w' rq s' = Continue t' \<and> view (user_id rq) t' = view (user_id rq) t"
proof -
  let ?u = "user_id rq"
  let ?k = "polls s"
  from seen have eq: "stop_events s' ?u = stop_events s ?u" "elapsed s' = elapsed s"
    "polls s' = polls s" "trace s' = trace s"
    by (simp_all add: view_def)
  from same have resp: "responses w' ?k = responses w ?k"
    and fetch: "filter (\<lambda>a. subject a = ?u) (during_fetch w' ?k) = filter (\<lambda>a. subject a = ?u) (during_fetch w ?k)"
    and sleep: "filter (\<lambda>a. subject a = ?u) (during_sleep w' ?k) = filter (\<lambda>a. subject a = ?u) (during_sleep w ?k)"
    by (simp_all add: same_for_def)
  have e0: "event_for (stop_events s') ?u ?u = event_for (stop_events s) ?u ?u"
    by (rule event_for_cong) (rule eq(1))
  have e1: "fold perform (during_fetch w' ?k) (event_for (stop_events s') ?u) ?u
          = fold perform (during_fetch w ?k) (event_for (stop_events s) ?u) ?u"
    using fetch e0
    by (rule fold_perform_cong [where events' = "event_for (stop_events s') ?u"
          and events = "event_for (stop_events s) ?u"])
  have e2: "fold perform (during_sleep w' ?k) (fold perform (during_fetch w' ?k) (event_for (stop_events s') ?u)) ?u
          = fold perform (during_sleep w ?k) (fold perform (during_fetch w ?k) (event_for (stop_events s) ?u)) ?u"
    using sleep e1
    by (rule fold_perform_cong
          [where events' = "fold perform (during_fetch w' ?k) (event_for (stop_events s') ?u)"
          and events = "fold perform (during_fetch w ?k) (event_for (stop_events s) ?u)"])
  have set0: "is_set (event_for (stop_events s') ?u) ?u = is_set (event_for (stop_events s) ?u) ?u"
    using e0 by (simp only: is_set_def)
  show ?thesis
    using eq(2-4) resp e0 e1 e2 set0
    by (simp add: poll_cycle_def Let_def view_def case_prod_beta del: is_set_event_for)
qed

lemma loop_frame:
  "monitor_loop w rq s = Some y \<Longrightarrow> same_for (user_id rq) w w' \<Longrightarrow>
     view (user_id rq) s' = view (user_id rq) s \<Longrightarrow>
     \<exists>t'. monitor_loop w' rq s' = Some (fst y, t') \<and> view (user_id rq) t' = view (user_id rq) (snd y)"
proof (induction arbitrary: s' rule: monitor_loop_induct)
  case (step loop w rq s y)
  from step.prems(2) have el: "elapsed s' = elapsed s" by (simp add: view_def)
  show ?case
  proof (cases "elapsed s \<le> timeInterval rq")
    case False
    with step.hyps have "y = (Inr False, s)" by simp
    with False el step.prems(2) show ?thesis by (simp add: monitor_loop_expired)
  next
    case True
    then have True': "elapsed s' \<le> timeInterval rq" using el by simp
    show ?thesis
    proof (cases "poll_cycle w rq s")
      case (Return r t)
      with poll_cycle_frame [OF step.prems] obtain t' where
        "poll_cycle w' rq s' = Return r t'" "view (user_id rq) t' = view (user_id rq) t" by auto
      moreover from Return step.hyps True have "y = (r, t)" by simp
      ultimately show ?thesis using True' by (simp add: monitor_loop_return)
    next
      case (Continue t)
      with poll_cycle_frame [OF step.prems] obtain t' where t':
        "poll_cycle w' rq s' = Continue t'" "view (user_id rq) t' = view (user_id rq) t" by auto
      from Continue step.hyps True have "loop w rq t = Some y" by simp
      from step.IH [OF this step.prems(1) t'(2)] show ?thesis
        using monitor_loop_continue [OF True' t'(1)] by simp
    qed
  qed
qed

lemma same_for_sym: "same_for u w w' \<Longrightarrow> same_for u w' w"
  by (simp add: same_for_def)

lemma loop_frame_outcome:
  assumes "same_for (user_id rq) w w'" and "view (user_id rq) s' = view (user_id rq) s"
  shows "outcome (user_id rq) (monitor_loop w' rq s') = outcome (user_id rq) (monitor_loop w rq s)"
proof (cases "monitor_loop w rq s")
  case None
  have "monitor_loop w' rq s' = None"
  proof (cases "monitor_loop w' rq s'")
    case (Some y')
    from loop_frame [OF Some same_for_sym [OF assms(1)] assms(2) [symmetric]] None
    show ?thesis by simp
  qed simp
  with None show ?thesis by simp
next
  case (Some y)
  from loop_frame [OF Some assms] obtain t' where
    "monitor_loop w' rq s' = Some (fst y, t')" "view (user_id rq) t' = view (user_id rq) (snd y)"
    by blast
  with Some show ?thesis by (cases y) (simp add: outcome_def)
qed

lemma outcome_monitorTransactions:
  "outcome u (monitorTransactions w rq events)
     = (case outcome u (monitor_loop w rq
             \<lparr>stop_events = clear_event (user_id rq) events, elapsed = 0, polls = 0, trace = []\<rparr>) of
          None \<Rightarrow> None
        | Some (Inl e, ev, el, k, tr) \<Rightarrow>
            Some (Inl e, ev, el, k, trace (reraise e \<lparr>stop_events = Map.empty, elapsed = 0, polls = 0, trace = tr\<rparr>))
        | Some (Inr b, v) \<Rightarrow> Some (Inr b, v))"
  by (auto simp: outcome_def monitorTransactions_def view_def reraise_def split: option.splits sum.splits)

text \<open>
  C9. For two different subjects \<open>a\<close> and \<open>b\<close>, \<open>stop_monitoring a\<close> sets the event of
  \<open>a\<close> and leaves the entry of \<open>b\<close> as it was. A session of \<open>b\<close> cannot tell a world with
  stops (and restarts) of other subjects from one without them: it returns the same result
  after the same requests and sleeps, or does not return in either.
\<close>

theorem stop_of_another_subject_is_not_seen:
  assumes "a \<noteq> b"
  shows "stop_monitoring a events b = events b
       \<and> is_set (stop_monitoring a events) a
       \<and> (user_id rq = b \<and> same_for b w w' \<longrightarrow>
            outcome b (monitorTransactions w' rq (stop_monitoring a events))
              = outcome b (monitorTransactions w rq events))"
proof (intro conjI impI)
  show "stop_monitoring a events b = events b"
    using assms by (simp add: stop_monitoring_eq)
  show "is_set (stop_monitoring a events) a"
    by (simp add: stop_monitoring_eq is_set_def)
  assume h: "user_id rq = b \<and> same_for b w w'"
  let ?s = "\<lambda>ev. \<lparr>stop_events = clear_event (user_id rq) ev, elapsed = 0, polls = 0, trace = []\<rparr>"
  have "view (user_id rq) (?s (stop_monitoring a events)) = view (user_id rq) (?s events)"
    by (simp add: view_def clear_event_eq)
  from loop_frame_outcome [OF _ this, of w w'] h
  have "outcome b (monitor_loop w' rq (?s (stop_monitoring a events)))
          = outcome b (monitor_loop w rq (?s events))"
    by simp
  then show "outcome b (monitorTransactions w' rq (stop_monitoring a events))
              = outcome b (monitorTransactions w rq events)"
    by (subst outcome_monitorTransactions, subst outcome_monitorTransactions) simp
qed

text \<open>
  In \<open>busy_world\<close> the session of \<open>bob\<close> is stopped during its first sleep and returns
  \<open>False\<close>, while the session of \<open>alice\<close> polls on as in \<open>quiet_world\<close> and finds the
  payment with its third request.
\<close>

lemma quiet_world_session:
  "monitorTransactions quiet_world sample_request Map.empty =
     Some (Inr True,
           \<lparr>stop_events = [''alice'' \<mapsto> False], elapsed = 10, polls = 3,
            trace = [Fetch ''EQwallet'', Sleep 5, Fetch ''EQwallet'', Sleep 5, Fetch ''EQwallet'']\<rparr>)"
  by (simp add: monitorTransactions_def run_defs quiet_world_def sample_request_def
      page_payment page_empty payment_10_def Let_def)

lemma busy_world_bob:
  "monitorTransactions busy_world (sample_request\<lparr>user_id := ''bob''\<rparr>) Map.empty =
     Some (Inr False,
           \<lparr>stop_events = [''bob'' \<mapsto> True], elapsed = 5, polls = 1,
            trace = [Fetch ''EQwallet'', Sleep 5]\<rparr>)"
  by (simp add: monitorTransactions_def run_defs busy_world_def quiet_world_def sample_request_def
      page_payment page_empty payment_10_def Let_def)

theorem stop_of_another_subject_is_not_seen_witness:
  "''bob'' \<noteq> ''alice'' \<and> user_id sample_request = ''alice''
   \<and> same_for ''alice'' quiet_world busy_world
   \<and> stop_monitoring ''bob'' Map.empty ''alice'' = None
   \<and> is_set (stop_monitoring ''bob'' Map.empty) ''bob''
   \<and> outcome ''alice''
         (monitorTransactions busy_world sample_request (stop_monitoring ''bob'' Map.empty))
       = Some (Inr True, Some False, 10, 3,
               [Fetch ''EQwallet'', Sleep 5, Fetch ''EQwallet'', Sleep 5, Fetch ''EQwallet''])
   \<and> (\<exists>s. monitorTransactions busy_world (sample_request\<lparr>user_id := ''bob''\<rparr>) Map.empty
            = Some (Inr False, s))"
proof -
  have ne: "''bob'' \<noteq> ''alice''" by simp
  have who: "user_id sample_request = ''alice''" by (simp add: sample_request_def)
  have same: "same_for ''alice'' quiet_world busy_world"
    by (simp add: same_for_def busy_world_def quiet_world_def)
  note inst = stop_of_another_subject_is_not_seen
      [OF ne, of Map.empty sample_request quiet_world busy_world]
  from inst who same
  have "outcome ''alice''
         (monitorTransactions busy_world sample_request (stop_monitoring ''bob'' Map.empty))
       = outcome ''alice'' (monitorTransactions quiet_world sample_request Map.empty)"
    by blast
  then have alice: "outcome ''alice''
         (monitorTransactions busy_world sample_request (stop_monitoring ''bob'' Map.empty))
       = Some (Inr True, Some False, 10, 3,
               [Fetch ''EQwallet'', Sleep 5, Fetch ''EQwallet'', Sleep 5, Fetch ''EQwallet''])"
    by (simp add: quiet_world_session outcome_def view_def)
  from inst have "stop_monitoring ''bob'' Map.empty ''alice'' = Map.empty ''alice''"
    and "is_set (stop_monitoring ''bob'' Map.empty) ''bob''"
    by blast+
  with ne who same alice busy_world_bob show ?thesis by simp
qed

end
